theory Spec2Isabelle
  imports Complex_Main
begin

section \<open>The contract scanner of the crypto-token-analyzer skill\<close>

text \<open>
  This theory embeds the decision logic of
  \<^verbatim>\<open>src/skills/crypto-token-analyzer/scripts/scan_contract.py\<close>:
  the risk aggregator \<^verbatim>\<open>calculate_risk_score\<close>, the ownership resolver
  \<^verbatim>\<open>check_ownership_status\<close>, the source normalizer inside
  \<^verbatim>\<open>fetch_contract_source\<close> and the pattern scanner \<^verbatim>\<open>scan_for_patterns\<close>.
  The HTTP requests are left out: each function is modelled from the point where the
  decoded response is at hand.
\<close>

subsection \<open>Python values the script handles\<close>

text \<open>
  The text the scanner reads is a Python \<^verbatim>\<open>str\<close>: a sequence of Unicode code points,
  modelled as natural numbers. \<open>ustr\<close> reads an ASCII literal as such a text.
\<close>

type_synonym ustring = "nat list"

definition ustr :: "string \<Rightarrow> ustring" where
  "ustr s = map of_char s"

text \<open>
  An element of the list \<^verbatim>\<open>re.findall\<close> returns is a string, or a tuple of strings when
  the pattern has two capture groups or more.
\<close>

datatype pyval = PStr ustring | PTuple "ustring list"

text \<open>One entry of a findings list (the dict literal of lines 197 to 202).\<close>

record finding =
  name :: string
  description :: string
  occurrences :: nat
  sample :: pyval

text \<open>The dict \<^verbatim>\<open>ownership_info\<close> of lines 224 to 228.\<close>

record ownership_info =
  renounced :: bool
  current_owner :: string
  transfer_events :: nat

text \<open>\<^verbatim>\<open>d.get(k, default)\<close> on a dict.\<close>

definition dict_get :: "('k \<rightharpoonup> 'v) \<Rightarrow> 'k \<Rightarrow> 'v \<Rightarrow> 'v" where
  "dict_get d k dflt = (case d k of None \<Rightarrow> dflt | Some v \<Rightarrow> v)"

text \<open>
  \<^verbatim>\<open>int(x)\<close> on a float truncates toward zero. The floats of the score are sums of
  multiples of one half, which binary floating point represents exactly, so they are
  modelled as exact reals.
\<close>

definition py_int :: "real \<Rightarrow> int" where
  "py_int x = (if 0 \<le> x then \<lfloor>x\<rfloor> else \<lceil>x\<rceil>)"

subsection \<open>The risk aggregator\<close>

text \<open>
  \<^verbatim>\<open>calculate_risk_score(findings, is_verified, ownership)\<close>, lines 250 to 284. The
  score is an \<^verbatim>\<open>int\<close> up to the critical findings and a float from the high findings
  on (the product with \<^verbatim>\<open>1.5\<close> is a float even for an empty list).
\<close>

definition calculate_risk_score ::
  "(string \<rightharpoonup> finding list) \<Rightarrow> bool \<Rightarrow> ownership_info \<Rightarrow> int \<times> string" where
  "calculate_risk_score findings is_verified ownership =
    (let score0 = (0 :: int);
         score1 = (if \<not> is_verified then score0 + 4 else score0);
         score2 = (if \<not> renounced ownership then score1 + 2 else score1);
         score3 = score2 + int (length (dict_get findings ''critical'' [])) * 3;
         score4 = (of_int score3 :: real) + of_nat (length (dict_get findings ''high'' [])) * (3 / 2);
         score5 = score4 + of_nat (length (dict_get findings ''medium'' [])) * (1 / 2);
         score = min 10 (max 1 (py_int score5));
         level = (if score \<ge> 8 then ''Critical''
                  else if score \<ge> 6 then ''High''
                  else if score \<ge> 4 then ''Medium''
                  else ''Low'')
     in (score, level))"

text \<open>
  The specification's view of the same function: the ownership status is a tagged
  variant, and the score is a closed formula over the number of findings per severity.
\<close>

datatype OwnershipStatus = Renounced | HeldBy string | Unknown

text \<open>
  How the dict encodes the variant: the flag \<^verbatim>\<open>renounced\<close> stands for \<open>Renounced\<close>,
  the initial owner text \<^verbatim>\<open>"Unknown"\<close> for \<open>Unknown\<close>, any other owner for \<open>HeldBy\<close>.
\<close>

definition status_of :: "ownership_info \<Rightarrow> OwnershipStatus" where
  "status_of info =
    (if renounced info then Renounced
     else if current_owner info = ''Unknown'' then Unknown
     else HeldBy (current_owner info))"

definition spec_raw_sum :: "bool \<Rightarrow> OwnershipStatus \<Rightarrow> nat \<Rightarrow> nat \<Rightarrow> nat \<Rightarrow> nat \<Rightarrow> real" where
  "spec_raw_sum is_verified st n_critical n_high n_medium n_info =
     0 + (if is_verified then 0 else 4) + (if st = Renounced then 0 else 2)
       + 3 * of_nat n_critical + (3 / 2) * of_nat n_high + (1 / 2) * of_nat n_medium
       + 0 * of_nat n_info"

definition spec_risk_score :: "bool \<Rightarrow> OwnershipStatus \<Rightarrow> nat \<Rightarrow> nat \<Rightarrow> nat \<Rightarrow> nat \<Rightarrow> int" where
  "spec_risk_score is_verified st n_critical n_high n_medium n_info =
     min 10 (max 1 (py_int (spec_raw_sum is_verified st n_critical n_high n_medium n_info)))"

subsection \<open>The ownership resolver\<close>

text \<open>
  A log entry of the explorer's answer; \<open>None\<close> is an entry without the key
  \<^verbatim>\<open>"topics"\<close>.
\<close>

record log_event =
  topics :: "string list option"

text \<open>
  The decoded answer \<^verbatim>\<open>data\<close> of the log request: the keys \<^verbatim>\<open>"status"\<close> and
  \<^verbatim>\<open>"result"\<close>, each possibly absent.
\<close>

record log_response =
  status :: "string option"
  result :: "log_event list option"

text \<open>\<^verbatim>\<open>s[-n:]\<close> for a positive \<open>n\<close>: the last \<open>n\<close> characters, all of \<open>s\<close> when it is shorter.\<close>

definition last_chars :: "nat \<Rightarrow> string \<Rightarrow> string" where
  "last_chars n s = drop (length s - n) s"

definition zero_topic :: string where
  "zero_topic = ''0x'' @ replicate 64 (CHR ''0'')"

text \<open>
  \<^verbatim>\<open>check_ownership_status\<close>, lines 224 to 247, on the decoded answer. A missing or
  empty \<^verbatim>\<open>"result"\<close> is falsy.
\<close>

definition check_ownership_status :: "log_response \<Rightarrow> ownership_info" where
  "check_ownership_status data =
    (let ownership_info = \<lparr>renounced = False, current_owner = ''Unknown'', transfer_events = 0\<rparr>
     in case result data of
          None \<Rightarrow> ownership_info
        | Some events \<Rightarrow>
            if status data = Some ''1'' \<and> events \<noteq> [] then
              (let ownership_info = ownership_info\<lparr>transfer_events := length events\<rparr>
               in if events \<noteq> [] then
                    (let last_event = last events;
                         tps = (case topics last_event of None \<Rightarrow> [] | Some ts \<Rightarrow> ts)
                     in if length tps \<ge> 3 then
                          (let new_owner = tps ! 2
                           in if new_owner = zero_topic then
                                ownership_info\<lparr>renounced := True,
                                  current_owner := ''0x0000000000000000000000000000000000000000''\<rparr>
                              else
                                ownership_info\<lparr>current_owner := ''0x'' @ last_chars 40 new_owner\<rparr>)
                        else ownership_info)
                  else ownership_info)
            else ownership_info)"

subsection \<open>The source normalizer\<close>

text \<open>
  What \<^verbatim>\<open>json.loads\<close> returns. The parser itself is the standard library's: the
  normalizer takes it as a parameter that returns the parsed value or raises. It raises
  \<^verbatim>\<open>JSONDecodeError\<close> on text that is no JSON, and it can raise other exceptions
  (\<^verbatim>\<open>RecursionError\<close> on deep nesting, a plain \<^verbatim>\<open>ValueError\<close> on an integer of too
  many digits). An object is the list of its items in iteration order, its keys
  distinct.
\<close>

datatype json =
    JNull
  | JBool bool
  | JNumber real
  | JString string
  | JArray "json list"
  | JObject "(string \<times> json) list"

datatype py_error =
    JSONDecodeError | RecursionError | ValueError | AttributeError | TypeError | KeyError

text \<open>\<^verbatim>\<open>sep.join(items)\<close>.\<close>

fun py_join :: "string \<Rightarrow> string list \<Rightarrow> string" where
  "py_join sep [] = []"
| "py_join sep [x] = x"
| "py_join sep (x # y # ys) = x @ sep @ py_join sep (y # ys)"

text \<open>\<^verbatim>\<open>src.get("content", "")\<close>: only a dict has \<^verbatim>\<open>get\<close>.\<close>

fun src_content :: "json \<Rightarrow> py_error + json" where
  "src_content (JObject kvs) =
     Inr (case map_of kvs ''content'' of None \<Rightarrow> JString [] | Some v \<Rightarrow> v)"
| "src_content _ = Inl AttributeError"

text \<open>
  The generator of lines 165 to 167 is run to its end before \<^verbatim>\<open>join\<close> looks at the
  items, so a value that is no dict fails first.
\<close>

fun gen_contents :: "json list \<Rightarrow> py_error + json list" where
  "gen_contents [] = Inr []"
| "gen_contents (v # vs) =
     (case src_content v of
        Inl e \<Rightarrow> Inl e
      | Inr c \<Rightarrow> (case gen_contents vs of Inl e \<Rightarrow> Inl e | Inr cs \<Rightarrow> Inr (c # cs)))"

text \<open>\<^verbatim>\<open>join\<close> refuses an item that is no string.\<close>

fun str_items :: "json list \<Rightarrow> py_error + string list" where
  "str_items [] = Inr []"
| "str_items (JString s # vs) =
     (case str_items vs of Inl e \<Rightarrow> Inl e | Inr ss \<Rightarrow> Inr (s # ss))"
| "str_items (_ # vs) = Inl TypeError"

text \<open>Lines 164 to 167 (and 173 to 176) on the parsed value.\<close>

definition join_sources :: "json \<Rightarrow> py_error + string" where
  "join_sources source_json =
    (case source_json of
       JObject kvs \<Rightarrow>
         (case (case map_of kvs ''sources'' of None \<Rightarrow> JObject [] | Some v \<Rightarrow> v) of
            JObject sources \<Rightarrow>
              (case gen_contents (map snd sources) of
                 Inl e \<Rightarrow> Inl e
               | Inr items \<Rightarrow>
                   (case str_items items of
                      Inl e \<Rightarrow> Inl e
                    | Inr ss \<Rightarrow> Inr (py_join [CHR 0x0A] ss)))
          | _ \<Rightarrow> Inl AttributeError)
     | _ \<Rightarrow> Inl AttributeError)"

text \<open>
  Lines 159 to 181 of \<^verbatim>\<open>fetch_contract_source\<close>: from the field
  \<^verbatim>\<open>SourceCode\<close> to the pair \<^verbatim>\<open>(is_verified, source_code)\<close>. Only
  \<^verbatim>\<open>JSONDecodeError\<close> is caught (lines 168 and 177); every other exception leaves the
  function.
\<close>

definition normalize_source ::
  "(string \<Rightarrow> py_error + json) \<Rightarrow> string \<Rightarrow> py_error + (bool \<times> string)" where
  "normalize_source json_loads source_code =
    (let r =
       (if take 2 source_code = ''{{'' then
          (case json_loads (butlast (tl source_code)) of
             Inl JSONDecodeError \<Rightarrow> Inr source_code
           | Inl e \<Rightarrow> Inl e
           | Inr source_json \<Rightarrow> join_sources source_json)
        else if take 1 source_code = ''{'' then
          (case json_loads source_code of
             Inl JSONDecodeError \<Rightarrow> Inr source_code
           | Inl e \<Rightarrow> Inl e
           | Inr source_json \<Rightarrow> join_sources source_json)
        else Inr source_code)
     in case r of
          Inl e \<Rightarrow> Inl e
        | Inr s \<Rightarrow> Inr (s \<noteq> [], s))"

text \<open>
  The specification's words for the joined text: each content followed by a newline,
  but for the last.
\<close>

definition spec_joined :: "string list \<Rightarrow> string" where
  "spec_joined cs = concat (butlast (concat (map (\<lambda>c. [c, [CHR 0x0A]]) cs)))"

subsection \<open>Regular expressions of the catalog\<close>

text \<open>
  The scanner calls \<^verbatim>\<open>re.findall(pattern, source_code, re.IGNORECASE)\<close>. The matcher
  is the standard library's backtracking matcher; it is modelled here for the syntax
  the seventeen patterns of \<^verbatim>\<open>DANGEROUS_PATTERNS\<close> use: literal text, the classes
  \<^verbatim>\<open>\w\<close>, \<^verbatim>\<open>\s\<close>, \<^verbatim>\<open>\d\<close>, bracket sets and negated bracket sets, a class
  repeated greedily at least \<open>n\<close> times (\<^verbatim>\<open>*\<close>, \<^verbatim>\<open>+\<close>, \<^verbatim>\<open>{2,}\<close>), sequence,
  alternation, a numbered capture group and the greedy option \<^verbatim>\<open>?\<close>. The characters
  of a pattern are written as \<open>char\<close>; the characters of the text are code points.
\<close>

datatype cset = Word | Space | Digit | OneOf "char list" | NoneOf "char list"

datatype regex =
    Lit string
  | Cls cset
  | Rep cset nat
  | Seq regex regex
  | Alt regex regex
  | Grp nat regex
  | Opt regex

text \<open>
  On a \<^verbatim>\<open>str\<close> the classes and \<^verbatim>\<open>re.IGNORECASE\<close> follow the Unicode character
  database, which is the interpreter's and not the repository's: its tables are a
  parameter of the matcher. \<open>uni_space\<close>, \<open>uni_word\<close> and \<open>uni_digit\<close> say which code
  points from 128 on are whitespace, word characters and decimal digits;
  \<open>uni_ignorecase p c\<close> says whether the pattern character \<open>p\<close> matches the text
  character \<open>c\<close> when case is ignored, for the pairs that are not both ASCII. The ASCII
  part of the tables is written out below.
\<close>

record unicode_tables =
  uni_space :: "nat \<Rightarrow> bool"
  uni_word :: "nat \<Rightarrow> bool"
  uni_digit :: "nat \<Rightarrow> bool"
  uni_ignorecase :: "nat \<Rightarrow> nat \<Rightarrow> bool"

text \<open>
  Two ASCII characters match with \<^verbatim>\<open>re.IGNORECASE\<close> when they are equal after
  \<^verbatim>\<open>A\<close> to \<^verbatim>\<open>Z\<close> are lower-cased.
\<close>

definition ascii_lower :: "nat \<Rightarrow> nat" where
  "ascii_lower c = (if 65 \<le> c \<and> c \<le> 90 then c + 32 else c)"

definition same_ignorecase :: "unicode_tables \<Rightarrow> char \<Rightarrow> nat \<Rightarrow> bool" where
  "same_ignorecase U p c =
     (if (of_char p :: nat) < 128 \<and> c < 128 then ascii_lower (of_char p) = ascii_lower c
      else uni_ignorecase U (of_char p) c)"

text \<open>
  The ASCII word characters are the digits, the letters and the underscore; the ASCII
  whitespace of a \<^verbatim>\<open>str\<close> is tab to carriage return (9 to 13), the separators 28 to 31
  and the space.
\<close>

fun in_cset :: "unicode_tables \<Rightarrow> cset \<Rightarrow> nat \<Rightarrow> bool" where
  "in_cset U Word c =
     (if c < 128
      then (48 \<le> c \<and> c \<le> 57) \<or> (65 \<le> c \<and> c \<le> 90) \<or> c = 95 \<or> (97 \<le> c \<and> c \<le> 122)
      else uni_word U c)"
| "in_cset U Space c =
     (if c < 128 then (9 \<le> c \<and> c \<le> 13) \<or> (28 \<le> c \<and> c \<le> 32) else uni_space U c)"
| "in_cset U Digit c = (if c < 128 then 48 \<le> c \<and> c \<le> 57 else uni_digit U c)"
| "in_cset U (OneOf cs) c = list_ex (\<lambda>p. same_ignorecase U p c) cs"
| "in_cset U (NoneOf cs) c = (\<not> list_ex (\<lambda>p. same_ignorecase U p c) cs)"

text \<open>
  The text of each capture group, \<open>None\<close> for a group that took no part in the match.
  Group \<open>g\<close> (counted from 1, as Python does) is stored at index \<open>g - 1\<close>.
\<close>

type_synonym captures = "ustring option list"

text \<open>
  \<open>rmatch r s c\<close> lists every way \<open>r\<close> matches a prefix of \<open>s\<close>, in the order the
  backtracking matcher tries them (greedy repetition: longest first; alternation: left
  branch first): each result is the rest of the text and the captures. The matcher
  commits to the first entry that lets the whole pattern succeed.
\<close>

fun rmatch ::
  "unicode_tables \<Rightarrow> regex \<Rightarrow> ustring \<Rightarrow> captures \<Rightarrow> (ustring \<times> captures) list" where
  "rmatch U (Lit l) s c =
     (if length l \<le> length s \<and> list_all2 (same_ignorecase U) l (take (length l) s)
      then [(drop (length l) s, c)] else [])"
| "rmatch U (Cls k) s c =
     (case s of [] \<Rightarrow> [] | x # xs \<Rightarrow> if in_cset U k x then [(xs, c)] else [])"
| "rmatch U (Rep k n) s c =
     map (\<lambda>j. (drop j s, c)) (rev [n ..< Suc (length (takeWhile (in_cset U k) s))])"
| "rmatch U (Seq a b) s c = concat (map (\<lambda>(s', c'). rmatch U b s' c') (rmatch U a s c))"
| "rmatch U (Alt a b) s c = rmatch U a s c @ rmatch U b s c"
| "rmatch U (Grp g r) s c =
     map (\<lambda>(s', c'). (s', c'[g - 1 := Some (take (length s - length s') s)])) (rmatch U r s c)"
| "rmatch U (Opt r) s c = rmatch U r s c @ [(s, c)]"

text \<open>A match consumes a prefix: the rest is never longer than the text.\<close>

lemma rmatch_length: "(s', c') \<in> set (rmatch U r s c) \<Longrightarrow> length s' \<le> length s"
proof (induction r arbitrary: s c s' c')
  case (Seq a b)
  then show ?case by (auto dest!: Seq.IH)
qed (auto split: if_splits list.splits)

text \<open>
  The matches of the whole pattern at the start of \<open>s\<close>. After an empty match the next
  search starts at the same place and must not be empty there (Python 3.7 and later).
\<close>

definition candidates ::
  "unicode_tables \<Rightarrow> regex \<Rightarrow> nat \<Rightarrow> bool \<Rightarrow> ustring \<Rightarrow> (ustring \<times> captures) list" where
  "candidates U r n must_advance s =
     filter (\<lambda>(s', c). if must_advance then length s' < length s else True)
       (rmatch U r s (replicate n None))"

lemma candidates_length:
  "(s', c) \<in> set (candidates U r n must_advance s) \<Longrightarrow>
     length s' \<le> length s \<and> (must_advance \<longrightarrow> length s' < length s)"
  by (auto simp: candidates_def dest: rmatch_length)

text \<open>
  The scan of \<^verbatim>\<open>re.finditer\<close>, which \<^verbatim>\<open>re.findall\<close> runs: at each position the first candidate is the match, and
  the scan continues where the match ended; without a candidate it moves on by one
  character. The result lists the matched texts with their captures.
\<close>

function finditer_from ::
  "unicode_tables \<Rightarrow> regex \<Rightarrow> nat \<Rightarrow> bool \<Rightarrow> ustring \<Rightarrow> (ustring \<times> captures) list" where
  "finditer_from U r n must_advance s =
     (case candidates U r n must_advance s of
        [] \<Rightarrow> (case s of [] \<Rightarrow> [] | x # xs \<Rightarrow> finditer_from U r n False xs)
      | (s', c) # _ \<Rightarrow>
          (take (length s - length s') s, c) # finditer_from U r n (length s' = length s) s')"
  by pat_completeness auto
termination
proof (relation "measure (\<lambda>(U, r, n, adv, s). 2 * length s + (if adv then 0 else 1))", goal_cases)
  case 1
  show ?case by simp
next
  case (2 U r n must_advance s x xs)
  then show ?case by simp
next
  case (3 U r n must_advance s a rest s' c)
  then have "(s', c) \<in> set (candidates U r n must_advance s)"
    by simp
  then have "length s' \<le> length s" and "must_advance \<Longrightarrow> length s' < length s"
    using candidates_length by blast+
  then show ?case by (cases must_advance; cases "length s' = length s") auto
qed

declare finditer_from.simps [simp del]

lemma finditer_from_end:
  "candidates U r n adv [] = [] \<Longrightarrow> finditer_from U r n adv [] = []"
  by (simp add: finditer_from.simps)

lemma finditer_from_skip:
  "candidates U r n adv (x # xs) = [] \<Longrightarrow>
     finditer_from U r n adv (x # xs) = finditer_from U r n False xs"
  by (simp add: finditer_from.simps)

lemma finditer_from_match:
  "candidates U r n adv s = (s', c) # rest \<Longrightarrow>
     finditer_from U r n adv s =
       (take (length s - length s') s, c) # finditer_from U r n (length s' = length s) s'"
  by (simp add: finditer_from.simps)

text \<open>The number of capture groups of a pattern.\<close>

fun ngroups :: "regex \<Rightarrow> nat" where
  "ngroups (Seq a b) = ngroups a + ngroups b"
| "ngroups (Alt a b) = ngroups a + ngroups b"
| "ngroups (Grp g r) = Suc (ngroups r)"
| "ngroups (Opt r) = ngroups r"
| "ngroups _ = 0"

definition finditer :: "unicode_tables \<Rightarrow> regex \<Rightarrow> ustring \<Rightarrow> (ustring \<times> captures) list" where
  "finditer U r s = finditer_from U r (ngroups r) False s"

text \<open>
  \<^verbatim>\<open>re.findall\<close>: the list of matched texts when the pattern has no group, of the
  group's text when it has one, of the tuples of all groups when it has more; a group
  that took no part gives the empty string.
\<close>

fun group_text :: "ustring option \<Rightarrow> ustring" where
  "group_text None = []"
| "group_text (Some t) = t"

definition findall :: "unicode_tables \<Rightarrow> regex \<Rightarrow> ustring \<Rightarrow> pyval list" where
  "findall U r s =
     map (\<lambda>(m, caps). if ngroups r = 0 then PStr m
                       else if ngroups r = 1 then PStr (group_text (caps ! 0))
                       else PTuple (map group_text caps))
         (finditer U r s)"

text \<open>Sequences and alternations of several parts.\<close>

fun seq :: "regex list \<Rightarrow> regex" where
  "seq [] = Lit []"
| "seq [r] = r"
| "seq (r # rs) = Seq r (seq rs)"

fun alts :: "regex list \<Rightarrow> regex" where
  "alts [] = Lit []"
| "alts [r] = r"
| "alts (r # rs) = Alt r (alts rs)"


subsection \<open>The signature catalog and the scanner\<close>

text \<open>An entry of \<^verbatim>\<open>DANGEROUS_PATTERNS\<close>: the keys \<^verbatim>\<open>name\<close>, \<^verbatim>\<open>pattern\<close>, \<^verbatim>\<open>description\<close>.\<close>

record pattern_info =
  rule_name :: string
  rule_pattern :: regex
  rule_description :: string

text \<open>
  The dict of lines 34 to 128, in its order. The patterns of the source, in the order of
  the entries below:
  \<^item> \<^verbatim>\<open>function\s+\w*[Mm]int\w*\s*\([^)]*\)\s*(external|public|internal)\<close>
  \<^item> \<^verbatim>\<open>require\s*\(\s*\w+\s*==\s*owner|require\s*\(\s*msg\.sender\s*==\s*owner\<close>
  \<^item> \<^verbatim>\<open>function\s+\w*[Bb]lacklist\w*|mapping\s*\([^)]*\)\s*(public|private|internal)?\s*\w*[Bb]lacklist\<close>
  \<^item> \<^verbatim>\<open>selfdestruct\s*\(|suicide\s*\(\<close>
  \<^item> \<^verbatim>\<open>\.delegatecall\s*\(\<close>
  \<^item> \<^verbatim>\<open>function\s+renounceOwnership|Ownable|owner\s*\(\s*\)\<close>
  \<^item> \<^verbatim>\<open>function\s+pause\s*\(|whenNotPaused|Pausable\<close>
  \<^item> \<^verbatim>\<open>maxTx|_maxTxAmount|maxTransactionAmount\<close>
  \<^item> \<^verbatim>\<open>(tax|fee|Tax|Fee)\s*=\s*(\d{2,})|setTax|setFee\<close>
  \<^item> \<^verbatim>\<open>function\s+_transfer[^}]+\.call\{\<close>
  \<^item> \<^verbatim>\<open>Proxy|upgradeable|implementation|_implementation\<close>
  \<^item> \<^verbatim>\<open>antiBot|_isBot|botWallet|sniper\<close>
  \<^item> \<^verbatim>\<open>cooldown|_cooldown|buyCooldown|sellCooldown\<close>
  \<^item> \<^verbatim>\<open>maxWallet|_maxWalletSize|maxWalletAmount\<close>
  \<^item> \<^verbatim>\<open>reflect|_rOwned|_tOwned|dividend\<close>
  \<^item> \<^verbatim>\<open>swapAndLiquify|addLiquidity|_swapTokensForEth\<close>
  \<^item> \<^verbatim>\<open>marketingWallet|_marketingAddress|marketingFee\<close>
\<close>

definition DANGEROUS_PATTERNS :: "(string \<times> pattern_info list) list" where
  "DANGEROUS_PATTERNS = [
    (''critical'', [
      \<lparr>rule_name = ''Hidden Mint'',
       rule_pattern = seq [Lit ''function'', Rep Space 1, Rep Word 0, Cls (OneOf ''Mm''), Lit ''int'',
                           Rep Word 0, Rep Space 0, Lit ''('', Rep (NoneOf '')'') 0, Lit '')'',
                           Rep Space 0,
                           Grp 1 (alts [Lit ''external'', Lit ''public'', Lit ''internal''])],
       rule_description = ''Owner can create unlimited tokens''\<rparr>,
      \<lparr>rule_name = ''Honeypot - Transfer Block'',
       rule_pattern = alts [
          seq [Lit ''require'', Rep Space 0, Lit ''('', Rep Space 0, Rep Word 1, Rep Space 0,
               Lit ''=='', Rep Space 0, Lit ''owner''],
          seq [Lit ''require'', Rep Space 0, Lit ''('', Rep Space 0, Lit ''msg.sender'',
               Rep Space 0, Lit ''=='', Rep Space 0, Lit ''owner'']],
       rule_description = ''Transfer may be restricted to owner only''\<rparr>,
      \<lparr>rule_name = ''Blacklist Function'',
       rule_pattern = alts [
          seq [Lit ''function'', Rep Space 1, Rep Word 0, Cls (OneOf ''Bb''), Lit ''lacklist'',
               Rep Word 0],
          seq [Lit ''mapping'', Rep Space 0, Lit ''('', Rep (NoneOf '')'') 0, Lit '')'',
               Rep Space 0,
               Opt (Grp 1 (alts [Lit ''public'', Lit ''private'', Lit ''internal''])),
               Rep Space 0, Rep Word 0, Cls (OneOf ''Bb''), Lit ''lacklist'']],
       rule_description = ''Contract can blacklist addresses from trading''\<rparr>,
      \<lparr>rule_name = ''Self-Destruct'',
       rule_pattern = alts [
          seq [Lit ''selfdestruct'', Rep Space 0, Lit ''(''],
          seq [Lit ''suicide'', Rep Space 0, Lit ''('']],
       rule_description = ''Contract can be destroyed, potentially stealing funds''\<rparr>,
      \<lparr>rule_name = ''Delegatecall'',
       rule_pattern = seq [Lit ''.delegatecall'', Rep Space 0, Lit ''(''],
       rule_description = ''Can execute arbitrary code from external contract''\<rparr>]),
    (''high'', [
      \<lparr>rule_name = ''Ownership Not Renounced'',
       rule_pattern = alts [
          seq [Lit ''function'', Rep Space 1, Lit ''renounceOwnership''],
          Lit ''Ownable'',
          seq [Lit ''owner'', Rep Space 0, Lit ''('', Rep Space 0, Lit '')'']],
       rule_description = ''Contract has owner privileges (check if renounced)''\<rparr>,
      \<lparr>rule_name = ''Pause Function'',
       rule_pattern = alts [
          seq [Lit ''function'', Rep Space 1, Lit ''pause'', Rep Space 0, Lit ''(''],
          Lit ''whenNotPaused'',
          Lit ''Pausable''],
       rule_description = ''Trading can be paused by owner''\<rparr>,
      \<lparr>rule_name = ''Max Transaction Limit'',
       rule_pattern = alts [Lit ''maxTx'', Lit ''_maxTxAmount'', Lit ''maxTransactionAmount''],
       rule_description = ''Transaction limits can trap buyers''\<rparr>,
      \<lparr>rule_name = ''High Tax/Fee'',
       rule_pattern = alts [
          seq [Grp 1 (alts [Lit ''tax'', Lit ''fee'', Lit ''Tax'', Lit ''Fee'']), Rep Space 0,
               Lit ''='', Rep Space 0, Grp 2 (Rep Digit 2)],
          Lit ''setTax'',
          Lit ''setFee''],
       rule_description = ''Adjustable fees could be set extremely high''\<rparr>,
      \<lparr>rule_name = ''External Call in Transfer'',
       rule_pattern = seq [Lit ''function'', Rep Space 1, Lit ''_transfer'', Rep (NoneOf ''}'') 1,
                           Lit ''.call{''],
       rule_description = ''External calls during transfer can be exploited''\<rparr>]),
    (''medium'', [
      \<lparr>rule_name = ''Proxy Pattern'',
       rule_pattern = alts [Lit ''Proxy'', Lit ''upgradeable'', Lit ''implementation'',
                            Lit ''_implementation''],
       rule_description = ''Upgradeable contract - logic can be changed''\<rparr>,
      \<lparr>rule_name = ''Anti-Bot Measures'',
       rule_pattern = alts [Lit ''antiBot'', Lit ''_isBot'', Lit ''botWallet'', Lit ''sniper''],
       rule_description = ''Anti-bot code can be used to block legitimate users''\<rparr>,
      \<lparr>rule_name = ''Cooldown Period'',
       rule_pattern = alts [Lit ''cooldown'', Lit ''_cooldown'', Lit ''buyCooldown'',
                            Lit ''sellCooldown''],
       rule_description = ''Trading cooldowns can prevent selling''\<rparr>,
      \<lparr>rule_name = ''Max Wallet Limit'',
       rule_pattern = alts [Lit ''maxWallet'', Lit ''_maxWalletSize'', Lit ''maxWalletAmount''],
       rule_description = ''Wallet limits can restrict accumulation''\<rparr>]),
    (''info'', [
      \<lparr>rule_name = ''Reflection/Rewards'',
       rule_pattern = alts [Lit ''reflect'', Lit ''_rOwned'', Lit ''_tOwned'', Lit ''dividend''],
       rule_description = ''Reflection mechanism (complex tokenomics)''\<rparr>,
      \<lparr>rule_name = ''Liquidity Generation'',
       rule_pattern = alts [Lit ''swapAndLiquify'', Lit ''addLiquidity'', Lit ''_swapTokensForEth''],
       rule_description = ''Auto-liquidity feature''\<rparr>,
      \<lparr>rule_name = ''Marketing Wallet'',
       rule_pattern = alts [Lit ''marketingWallet'', Lit ''_marketingAddress'', Lit ''marketingFee''],
       rule_description = ''Marketing fee collection''\<rparr>])]"

text \<open>
  The inner loop of \<^verbatim>\<open>scan_for_patterns\<close> (lines 194 to 202) over the patterns of one
  severity. \<^verbatim>\<open>findings[severity]\<close> raises \<^verbatim>\<open>KeyError\<close> on a missing key.
\<close>

fun scan_rules ::
  "unicode_tables \<Rightarrow> ustring \<Rightarrow> string \<Rightarrow> pattern_info list \<Rightarrow> (string \<rightharpoonup> finding list)
     \<Rightarrow> py_error + (string \<rightharpoonup> finding list)" where
  "scan_rules U source_code severity [] findings = Inr findings"
| "scan_rules U source_code severity (pattern_info # patterns) findings =
     (let matches = findall U (rule_pattern pattern_info) source_code
      in if matches \<noteq> [] then
           (case findings severity of
              None \<Rightarrow> Inl KeyError
            | Some fs \<Rightarrow>
                scan_rules U source_code severity patterns
                  (findings(severity \<mapsto> fs @
                     [\<lparr>name = rule_name pattern_info,
                       description = rule_description pattern_info,
                       occurrences = length matches,
                       sample = (case matches of [] \<Rightarrow> PStr [] | m # _ \<Rightarrow> m)\<rparr>])))
         else scan_rules U source_code severity patterns findings)"

text \<open>The outer loop (line 193) over the items of the catalog.\<close>

fun scan_items ::
  "unicode_tables \<Rightarrow> ustring \<Rightarrow> (string \<times> pattern_info list) list \<Rightarrow> (string \<rightharpoonup> finding list)
     \<Rightarrow> py_error + (string \<rightharpoonup> finding list)" where
  "scan_items U source_code [] findings = Inr findings"
| "scan_items U source_code ((severity, patterns) # items) findings =
     (case scan_rules U source_code severity patterns findings of
        Inl e \<Rightarrow> Inl e
      | Inr findings' \<Rightarrow> scan_items U source_code items findings')"

text \<open>\<^verbatim>\<open>scan_for_patterns\<close>, lines 184 to 204.\<close>

definition scan_for_patterns ::
  "unicode_tables \<Rightarrow> ustring \<Rightarrow> py_error + (string \<rightharpoonup> finding list)" where
  "scan_for_patterns U source_code =
     scan_items U source_code DANGEROUS_PATTERNS
       [''critical'' \<mapsto> [], ''high'' \<mapsto> [], ''medium'' \<mapsto> [], ''info'' \<mapsto> []]"

subsection \<open>What a pattern matches\<close>

text \<open>
  The texts a pattern matches, ignoring case: the declarative reading of the patterns,
  against which the matcher is checked below.
\<close>

fun lang :: "unicode_tables \<Rightarrow> regex \<Rightarrow> ustring set" where
  "lang U (Lit l) = {w. list_all2 (same_ignorecase U) l w}"
| "lang U (Cls k) = {w. \<exists>x. w = [x] \<and> in_cset U k x}"
| "lang U (Rep k n) = {w. n \<le> length w \<and> list_all (in_cset U k) w}"
| "lang U (Seq a b) = {w. \<exists>u v. w = u @ v \<and> u \<in> lang U a \<and> v \<in> lang U b}"
| "lang U (Alt a b) = lang U a \<union> lang U b"
| "lang U (Grp g r) = lang U r"
| "lang U (Opt r) = insert [] (lang U r)"

text \<open>
  Matches that do not overlap, in text order: \<open>weave gs ms\<close> is the text made of the
  gaps \<open>gs\<close> with the matches \<open>ms\<close> between them.
\<close>

fun weave :: "ustring list \<Rightarrow> ustring list \<Rightarrow> ustring" where
  "weave (g # gs) (m # ms) = g @ m @ weave gs ms"
| "weave (g # gs) [] = g"
| "weave [] ms = []"

text \<open>
  A match starts at the beginning of \<open>t\<close>; and the gaps hold no start of a match: the
  matches of a scan are the leftmost ones.
\<close>

definition starts_match :: "unicode_tables \<Rightarrow> regex \<Rightarrow> ustring \<Rightarrow> bool" where
  "starts_match U r t = (\<exists>w v. t = w @ v \<and> w \<in> lang U r)"

fun gaps_clear :: "unicode_tables \<Rightarrow> regex \<Rightarrow> ustring list \<Rightarrow> ustring list \<Rightarrow> bool" where
  "gaps_clear U r (g # gs) (m # ms) =
     ((\<forall>k < length g. \<not> starts_match U r (drop k (g @ m @ weave gs ms))) \<and> gaps_clear U r gs ms)"
| "gaps_clear U r (g # gs) [] = (\<forall>k < length g. \<not> starts_match U r (drop k g))"
| "gaps_clear U r [] ms = True"

text \<open>Whether a pattern matches the empty text.\<close>

fun nullable :: "regex \<Rightarrow> bool" where
  "nullable (Lit l) = (l = [])"
| "nullable (Cls k) = False"
| "nullable (Rep k n) = (n = 0)"
| "nullable (Seq a b) = (nullable a \<and> nullable b)"
| "nullable (Alt a b) = (nullable a \<or> nullable b)"
| "nullable (Grp g r) = nullable r"
| "nullable (Opt r) = True"

text \<open>
  The finding the scanner builds for a pattern (lines 197 to 202), and the patterns of a
  list that have a match: the closed form of the loop.
\<close>

definition finding_of :: "unicode_tables \<Rightarrow> ustring \<Rightarrow> pattern_info \<Rightarrow> finding" where
  "finding_of U source_code p =
     \<lparr>name = rule_name p, description = rule_description p,
      occurrences = length (findall U (rule_pattern p) source_code),
      sample = (case findall U (rule_pattern p) source_code of [] \<Rightarrow> PStr [] | m # _ \<Rightarrow> m)\<rparr>"

definition matched_rules ::
  "unicode_tables \<Rightarrow> ustring \<Rightarrow> pattern_info list \<Rightarrow> pattern_info list" where
  "matched_rules U source_code ps = filter (\<lambda>p. findall U (rule_pattern p) source_code \<noteq> []) ps"

section \<open>Properties of the risk aggregator\<close>

lemma status_of_Renounced: "status_of info = Renounced \<longleftrightarrow> renounced info"
  by (simp add: status_of_def)

lemma py_int_mono: "x \<le> y \<Longrightarrow> py_int x \<le> py_int y"
proof -
  assume le: "x \<le> y"
  show ?thesis
  proof (cases "0 \<le> x")
    case True
    then have "0 \<le> y" using le by simp
    with True le show ?thesis by (simp add: py_int_def floor_mono)
  next
    case False
    then have cx: "\<lceil>x\<rceil> \<le> 0" by (simp add: ceiling_le_iff)
    show ?thesis
    proof (cases "0 \<le> y")
      case True
      then have "0 \<le> \<lfloor>y\<rfloor>" by simp
      with cx have "\<lceil>x\<rceil> \<le> \<lfloor>y\<rfloor>" by linarith
      with False True show ?thesis by (simp add: py_int_def)
    next
      case y: False
      with False le show ?thesis by (simp add: py_int_def ceiling_mono)
    qed
  qed
qed

lemma score_unfold:
  "fst (calculate_risk_score fs v ow) =
     min 10 (max 1 (py_int ((if v then 0 else 4) + (if renounced ow then 0 else 2)
       + 3 * real (length (dict_get fs ''critical'' []))
       + (3 / 2) * real (length (dict_get fs ''high'' []))
       + (1 / 2) * real (length (dict_get fs ''medium'' [])))))"
  unfolding calculate_risk_score_def Let_def fst_conv
  by (simp add: algebra_simps)

lemma clamp_mono: "(a::int) \<le> b \<Longrightarrow> min 10 (max 1 a) \<le> min 10 (max 1 b)"
  by linarith

lemma score_depends_on_lengths:
  assumes "length (dict_get fs ''critical'' []) \<le> length (dict_get fs' ''critical'' [])"
    and "length (dict_get fs ''high'' []) = length (dict_get fs' ''high'' [])"
    and "length (dict_get fs ''medium'' []) = length (dict_get fs' ''medium'' [])"
  shows "fst (calculate_risk_score fs v ow) \<le> fst (calculate_risk_score fs' v ow)"
proof -
  have "real (length (dict_get fs ''critical'' [])) \<le> real (length (dict_get fs' ''critical'' []))"
    using assms(1) by simp
  then show ?thesis
    unfolding score_unfold assms(2,3)
    by (intro clamp_mono py_int_mono) linarith
qed

text \<open>
  Claim C1. The score \<^verbatim>\<open>calculate_risk_score\<close> returns is the specification's formula:
  from 0, plus 4 when the source is not verified, plus 2 when the ownership status is
  not \<open>Renounced\<close> (\<open>HeldBy\<close> and \<open>Unknown\<close> alike), plus 3 for each critical finding,
  1.5 for each high one, 0.5 for each medium one and nothing for an info one; the sum
  truncated to an integer and clamped into 1..10. It holds for every findings dict,
  flag and ownership dict.
\<close>

theorem risk_score_formula:
  "fst (calculate_risk_score findings is_verified ownership) =
     spec_risk_score is_verified (status_of ownership)
       (length (dict_get findings ''critical'' [])) (length (dict_get findings ''high'' []))
       (length (dict_get findings ''medium'' [])) (length (dict_get findings ''info'' []))"
  unfolding calculate_risk_score_def spec_risk_score_def spec_raw_sum_def Let_def
  by (simp add: status_of_Renounced algebra_simps)

text \<open>
  The formula at work: one critical finding, two high ones and one info finding on an
  unverified contract held by an address give \<open>4 + 2 + 3 + 3 = 12\<close>, clamped to 10; with
  verified source, renounced ownership and one high finding the sum \<open>1.5\<close> truncates
  to 1.
\<close>

theorem risk_score_formula_witness:
  "fst (calculate_risk_score
         [''critical'' \<mapsto> [\<lparr>name = ''Self-Destruct'', description = ''d'', occurrences = 1,
                               sample = PStr (ustr ''selfdestruct('')\<rparr>],
          ''high'' \<mapsto> [\<lparr>name = ''Pause Function'', description = ''d'', occurrences = 2,
                           sample = PStr (ustr ''Pausable'')\<rparr>,
                         \<lparr>name = ''Max Transaction Limit'', description = ''d'', occurrences = 1,
                           sample = PStr (ustr ''maxTx'')\<rparr>],
          ''info'' \<mapsto> [\<lparr>name = ''Marketing Wallet'', description = ''d'', occurrences = 1,
                           sample = PStr (ustr ''marketingFee'')\<rparr>]]
         False \<lparr>renounced = False, current_owner = ''0xabc'', transfer_events = 1\<rparr>)
     = spec_risk_score False (HeldBy ''0xabc'') 1 2 0 1
   \<and> spec_risk_score False (HeldBy ''0xabc'') 1 2 0 1 = 10
   \<and> fst (calculate_risk_score
         [''high'' \<mapsto> [\<lparr>name = ''Pause Function'', description = ''d'', occurrences = 2,
                           sample = PStr (ustr ''Pausable'')\<rparr>]]
         True \<lparr>renounced = True, current_owner = ''0x0'', transfer_events = 1\<rparr>)
     = spec_risk_score True Renounced 0 1 0 0
   \<and> spec_risk_score True Renounced 0 1 0 0 = 1"
  using risk_score_formula [of
      "[''critical'' \<mapsto> [\<lparr>name = ''Self-Destruct'', description = ''d'', occurrences = 1,
                               sample = PStr (ustr ''selfdestruct('')\<rparr>],
          ''high'' \<mapsto> [\<lparr>name = ''Pause Function'', description = ''d'', occurrences = 2,
                           sample = PStr (ustr ''Pausable'')\<rparr>,
                         \<lparr>name = ''Max Transaction Limit'', description = ''d'', occurrences = 1,
                           sample = PStr (ustr ''maxTx'')\<rparr>],
          ''info'' \<mapsto> [\<lparr>name = ''Marketing Wallet'', description = ''d'', occurrences = 1,
                           sample = PStr (ustr ''marketingFee'')\<rparr>]]"
      False "\<lparr>renounced = False, current_owner = ''0xabc'', transfer_events = 1\<rparr>"]
    risk_score_formula [of
      "[''high'' \<mapsto> [\<lparr>name = ''Pause Function'', description = ''d'', occurrences = 2,
                           sample = PStr (ustr ''Pausable'')\<rparr>]]"
      True "\<lparr>renounced = True, current_owner = ''0x0'', transfer_events = 1\<rparr>"]
  by (simp add: dict_get_def status_of_def spec_risk_score_def spec_raw_sum_def py_int_def)

text \<open>
  Claim C2. For every findings dict, verification flag and ownership dict the score
  lies in the closed interval from 1 to 10: never 0 or below, never above 10.
\<close>

theorem risk_score_bounds:
  "1 \<le> fst (calculate_risk_score findings is_verified ownership) \<and>
   fst (calculate_risk_score findings is_verified ownership) \<le> 10"
  unfolding calculate_risk_score_def Let_def fst_conv by (simp add: min_def max_def)

text \<open>
  Claim C6. The category is the ladder over the clamped score: 8 and more is Critical,
  otherwise 6 and more is High, otherwise 4 and more is Medium, otherwise Low. So the
  scores 8 and 10 give Critical, 7 gives High, 4 gives Medium and 1 gives Low.
\<close>

theorem risk_category_ladder:
  "snd (calculate_risk_score findings is_verified ownership) =
     (if fst (calculate_risk_score findings is_verified ownership) \<ge> 8 then ''Critical''
      else if fst (calculate_risk_score findings is_verified ownership) \<ge> 6 then ''High''
      else if fst (calculate_risk_score findings is_verified ownership) \<ge> 4 then ''Medium''
      else ''Low'')
   \<and> (fst (calculate_risk_score findings is_verified ownership) = 8 \<longrightarrow>
        snd (calculate_risk_score findings is_verified ownership) = ''Critical'')
   \<and> (fst (calculate_risk_score findings is_verified ownership) = 10 \<longrightarrow>
        snd (calculate_risk_score findings is_verified ownership) = ''Critical'')
   \<and> (fst (calculate_risk_score findings is_verified ownership) = 7 \<longrightarrow>
        snd (calculate_risk_score findings is_verified ownership) = ''High'')
   \<and> (fst (calculate_risk_score findings is_verified ownership) = 4 \<longrightarrow>
        snd (calculate_risk_score findings is_verified ownership) = ''Medium'')
   \<and> (fst (calculate_risk_score findings is_verified ownership) = 1 \<longrightarrow>
        snd (calculate_risk_score findings is_verified ownership) = ''Low'')"
proof -
  have ladder: "snd (calculate_risk_score findings is_verified ownership) =
     (if fst (calculate_risk_score findings is_verified ownership) \<ge> 8 then ''Critical''
      else if fst (calculate_risk_score findings is_verified ownership) \<ge> 6 then ''High''
      else if fst (calculate_risk_score findings is_verified ownership) \<ge> 4 then ''Medium''
      else ''Low'')"
    unfolding calculate_risk_score_def Let_def by (simp only: fst_conv snd_conv)
  show ?thesis
    apply (intro conjI impI)
         apply (rule ladder)
        apply (simp_all only: ladder)
        apply simp_all
    done
qed

text \<open>
  Inputs that reach each of the five scores: \<open>4 + 2 + 1.5 + 0.5 = 8\<close>;
  \<open>4 + 2 + 3 + 3 = 12\<close>, clamped to 10; \<open>4 + 2 + 1.5 = 7.5\<close>, truncated to 7; 4 for an
  unverified contract whose ownership is renounced; 0, raised to 1, for a verified one.
\<close>

theorem risk_category_ladder_witness:
  "calculate_risk_score
      [''high'' \<mapsto> [\<lparr>name = ''Pause Function'', description = ''d'', occurrences = 1, sample = PStr (ustr ''Pausable'')\<rparr>],
       ''medium'' \<mapsto> [\<lparr>name = ''Cooldown Period'', description = ''d'', occurrences = 1, sample = PStr (ustr ''cooldown'')\<rparr>]]
      False \<lparr>renounced = False, current_owner = ''Unknown'', transfer_events = 0\<rparr> = (8, ''Critical'')
   \<and> calculate_risk_score
      [''critical'' \<mapsto> [\<lparr>name = ''Self-Destruct'', description = ''d'', occurrences = 1, sample = PStr (ustr ''selfdestruct('')\<rparr>,
                          \<lparr>name = ''Delegatecall'', description = ''d'', occurrences = 1, sample = PStr (ustr ''.delegatecall('')\<rparr>]]
      False \<lparr>renounced = False, current_owner = ''Unknown'', transfer_events = 0\<rparr> = (10, ''Critical'')
   \<and> calculate_risk_score
      [''high'' \<mapsto> [\<lparr>name = ''Pause Function'', description = ''d'', occurrences = 1, sample = PStr (ustr ''Pausable'')\<rparr>]]
      False \<lparr>renounced = False, current_owner = ''Unknown'', transfer_events = 0\<rparr> = (7, ''High'')
   \<and> calculate_risk_score Map.empty
      False \<lparr>renounced = True, current_owner = ''0x0000000000000000000000000000000000000000'', transfer_events = 1\<rparr> = (4, ''Medium'')
   \<and> calculate_risk_score Map.empty
      True \<lparr>renounced = True, current_owner = ''0x0000000000000000000000000000000000000000'', transfer_events = 1\<rparr> = (1, ''Low'')"
proof -
  have s: "fst p = a \<Longrightarrow> (fst p = a \<longrightarrow> snd p = b) \<Longrightarrow> p = (a, b)" for p :: "int \<times> string" and a b
    by (cases p) simp
  note l = risk_category_ladder
  show ?thesis
    apply (intro conjI)
        apply (rule s [OF _ l [THEN conjunct2, THEN conjunct1]],
               simp add: score_unfold dict_get_def py_int_def)
       apply (rule s [OF _ l [THEN conjunct2, THEN conjunct2, THEN conjunct1]],
              simp add: score_unfold dict_get_def py_int_def)
      apply (rule s [OF _ l [THEN conjunct2, THEN conjunct2, THEN conjunct2, THEN conjunct1]],
             simp add: score_unfold dict_get_def py_int_def)
     apply (rule s [OF _ l [THEN conjunct2, THEN conjunct2, THEN conjunct2, THEN conjunct2, THEN conjunct1]],
            simp add: score_unfold dict_get_def py_int_def)
    apply (rule s [OF _ l [THEN conjunct2, THEN conjunct2, THEN conjunct2, THEN conjunct2, THEN conjunct2]],
           simp add: score_unfold dict_get_def py_int_def)
    done
qed

text \<open>
  Claim C9. The score is monotone in the critical findings: one more finding appended
  to the critical list never lowers the score, and one more occurrence of a critical
  rule that has its finding already (its \<^verbatim>\<open>occurrences\<close> raised by one) leaves the score
  as it is; the flag, the ownership and the other lists are the same on both sides.
\<close>

theorem risk_score_monotone_critical:
  "fst (calculate_risk_score fs v ow)
     \<le> fst (calculate_risk_score (fs(''critical'' \<mapsto> dict_get fs ''critical'' [] @ [f])) v ow)
   \<and> (i < length (dict_get fs ''critical'' []) \<longrightarrow>
        fst (calculate_risk_score
              (fs(''critical'' \<mapsto> (dict_get fs ''critical'' [])
                    [i := (dict_get fs ''critical'' [] ! i)
                            \<lparr>occurrences := occurrences (dict_get fs ''critical'' [] ! i) + 1\<rparr>])) v ow)
        = fst (calculate_risk_score fs v ow))"
proof -
  have a: "fst (calculate_risk_score fs v ow)
     \<le> fst (calculate_risk_score (fs(''critical'' \<mapsto> dict_get fs ''critical'' [] @ [f])) v ow)"
    by (rule score_depends_on_lengths) (simp_all add: dict_get_def)
  have b: "fst (calculate_risk_score (fs(''critical'' \<mapsto> (dict_get fs ''critical'' [])[i := g])) v ow)
        = fst (calculate_risk_score fs v ow)" for g
    by (rule antisym; rule score_depends_on_lengths) (simp_all add: dict_get_def)
  from a b show ?thesis by blast
qed

text \<open>
  A verified, renounced contract with one critical finding scores 3; with a second
  critical finding 6; with a second occurrence of the first one still 3.
\<close>

theorem risk_score_monotone_critical_witness:
  "fst (calculate_risk_score
          [''critical'' \<mapsto> [\<lparr>name = ''Self-Destruct'', description = ''d'', occurrences = 1, sample = PStr (ustr ''selfdestruct('')\<rparr>]]
          True \<lparr>renounced = True, current_owner = ''0x0'', transfer_events = 1\<rparr>) = 3
   \<and> fst (calculate_risk_score
          [''critical'' \<mapsto> [\<lparr>name = ''Self-Destruct'', description = ''d'', occurrences = 1, sample = PStr (ustr ''selfdestruct('')\<rparr>,
                              \<lparr>name = ''Delegatecall'', description = ''d'', occurrences = 1, sample = PStr (ustr ''.delegatecall('')\<rparr>]]
          True \<lparr>renounced = True, current_owner = ''0x0'', transfer_events = 1\<rparr>) = 6
   \<and> (3::int) \<le> 6
   \<and> (0::nat) < length [\<lparr>name = ''Self-Destruct'', description = ''d'', occurrences = 1, sample = PStr (ustr ''selfdestruct('')\<rparr>]
   \<and> fst (calculate_risk_score
          [''critical'' \<mapsto> [\<lparr>name = ''Self-Destruct'', description = ''d'', occurrences = 2, sample = PStr (ustr ''selfdestruct('')\<rparr>]]
          True \<lparr>renounced = True, current_owner = ''0x0'', transfer_events = 1\<rparr>) = 3"
  using risk_score_monotone_critical [of
      "[''critical'' \<mapsto> [\<lparr>name = ''Self-Destruct'', description = ''d'', occurrences = 1, sample = PStr (ustr ''selfdestruct('')\<rparr>]]"
      True "\<lparr>renounced = True, current_owner = ''0x0'', transfer_events = 1\<rparr>"
      "\<lparr>name = ''Delegatecall'', description = ''d'', occurrences = 1, sample = PStr (ustr ''.delegatecall('')\<rparr>" 0]
  by (simp add: dict_get_def score_unfold py_int_def)

section \<open>Properties of the ownership resolver\<close>

text \<open>
  Claim C7. The resolver returns a status on degenerate input: \<open>Unknown\<close> with a count
  of 0 for the empty event list; \<open>Unknown\<close> with the count of all events for a list whose
  last event has fewer than three topics (the explorer having answered with status 1).
\<close>

theorem ownership_degenerate:
  "(result data = Some [] \<longrightarrow>
      status_of (check_ownership_status data) = Unknown
      \<and> transfer_events (check_ownership_status data) = 0)
   \<and> (status data = Some ''1'' \<and> result data = Some events \<and> events \<noteq> []
        \<and> length (case topics (last events) of None \<Rightarrow> [] | Some ts \<Rightarrow> ts) < 3 \<longrightarrow>
      status_of (check_ownership_status data) = Unknown
      \<and> transfer_events (check_ownership_status data) = length events)"
  by (auto simp: check_ownership_status_def status_of_def Let_def)

text \<open>The empty list, and two events of which the last has two topics.\<close>

theorem ownership_degenerate_witness:
  "status_of (check_ownership_status \<lparr>status = Some ''1'', result = Some []\<rparr>) = Unknown
   \<and> transfer_events (check_ownership_status \<lparr>status = Some ''1'', result = Some []\<rparr>) = 0
   \<and> status_of (check_ownership_status
        \<lparr>status = Some ''1'',
         result = Some [\<lparr>topics = Some [''0x8be0'', ''0x01'', ''0x02'']\<rparr>,
                        \<lparr>topics = Some [''0x8be0'', ''0x02'']\<rparr>]\<rparr>) = Unknown
   \<and> transfer_events (check_ownership_status
        \<lparr>status = Some ''1'',
         result = Some [\<lparr>topics = Some [''0x8be0'', ''0x01'', ''0x02'']\<rparr>,
                        \<lparr>topics = Some [''0x8be0'', ''0x02'']\<rparr>]\<rparr>) = 2"
  using ownership_degenerate [of "\<lparr>status = Some ''1'', result = Some []\<rparr>"]
    ownership_degenerate [of "\<lparr>status = Some ''1'',
         result = Some [\<lparr>topics = Some [''0x8be0'', ''0x01'', ''0x02'']\<rparr>,
                        \<lparr>topics = Some [''0x8be0'', ''0x02'']\<rparr>]\<rparr>"
       "[\<lparr>topics = Some [''0x8be0'', ''0x01'', ''0x02'']\<rparr>,
                        \<lparr>topics = Some [''0x8be0'', ''0x02'']\<rparr>]"]
  by simp

text \<open>
  Claim C3 at a failing input. The claim takes the last 40 characters of the third
  topic as the new owner and reports \<open>Renounced\<close> when they are 40 zeros. Line 241
  compares the whole topic with \<^verbatim>\<open>"0x"\<close> and 64 zeros instead. On a third topic whose
  last 40 characters are zeros and whose 24 characters before them are not, line 245
  stores the zero address \<^verbatim>\<open>0x0000000000000000000000000000000000000000\<close> as the owner,
  the very text line 243 stores on renouncement, and the flag stays \<^verbatim>\<open>False\<close>.
\<close>

theorem zero_address_not_renounced:
  "last_chars 40 (''0x'' @ replicate 24 (CHR ''f'') @ replicate 40 (CHR ''0'')) = replicate 40 (CHR ''0'')
   \<and> status_of (check_ownership_status
        \<lparr>status = Some ''1'',
         result = Some [\<lparr>topics = Some [''0x8be0079c531659141344cd1fd0a4f28419497f9722a3daafe3b4186f6b6457e0'',
                                        ''0x000000000000000000000000ab5801a7d398351b8be11c439e05c5b3259aec9b'',
                                        ''0x'' @ replicate 24 (CHR ''f'') @ replicate 40 (CHR ''0'')]\<rparr>]\<rparr>)
       = HeldBy (''0x'' @ replicate 40 (CHR ''0''))
   \<and> status_of (check_ownership_status
        \<lparr>status = Some ''1'',
         result = Some [\<lparr>topics = Some [''0x8be0079c531659141344cd1fd0a4f28419497f9722a3daafe3b4186f6b6457e0'',
                                        ''0x000000000000000000000000ab5801a7d398351b8be11c439e05c5b3259aec9b'',
                                        ''0x'' @ replicate 24 (CHR ''f'') @ replicate 40 (CHR ''0'')]\<rparr>]\<rparr>)
       \<noteq> Renounced
   \<and> renounced (check_ownership_status
        \<lparr>status = Some ''1'',
         result = Some [\<lparr>topics = Some [''0x8be0079c531659141344cd1fd0a4f28419497f9722a3daafe3b4186f6b6457e0'',
                                        ''0x000000000000000000000000ab5801a7d398351b8be11c439e05c5b3259aec9b'',
                                        ''0x'' @ replicate 24 (CHR ''f'') @ replicate 40 (CHR ''0'')]\<rparr>]\<rparr>)
       = False
   \<and> current_owner (check_ownership_status
        \<lparr>status = Some ''1'',
         result = Some [\<lparr>topics = Some [''0x8be0079c531659141344cd1fd0a4f28419497f9722a3daafe3b4186f6b6457e0'',
                                        ''0x000000000000000000000000ab5801a7d398351b8be11c439e05c5b3259aec9b'',
                                        ''0x'' @ replicate 24 (CHR ''f'') @ replicate 40 (CHR ''0'')]\<rparr>]\<rparr>)
       = ''0x0000000000000000000000000000000000000000''"
  by (simp add: check_ownership_status_def status_of_def Let_def last_chars_def zero_topic_def
      numeral_eq_Suc)

text \<open>
  On a third topic that is padded with zeros, as an address is in a log entry, the
  code follows the rule of claim C3: with \<^verbatim>\<open>"0x"\<close>, 24 zeros and a 40-character
  address \<open>addr\<close>, the status is \<open>Renounced\<close> when \<open>addr\<close> is 40 zeros and \<open>HeldBy\<close>
  the address otherwise, and the count is the number of events.
\<close>

lemma ownership_last_event_padded:
  assumes "status data = Some ''1''" and "result data = Some events" and "events \<noteq> []"
    and "topics (last events) = Some ts" and "length ts \<ge> 3"
    and "ts ! 2 = ''0x'' @ replicate 24 (CHR ''0'') @ addr" and "length addr = 40"
  shows "last_chars 40 (ts ! 2) = addr
       \<and> (addr = replicate 40 (CHR ''0'') \<longrightarrow>
            status_of (check_ownership_status data) = Renounced)
       \<and> (addr \<noteq> replicate 40 (CHR ''0'') \<longrightarrow>
            status_of (check_ownership_status data) = HeldBy (''0x'' @ addr))
       \<and> transfer_events (check_ownership_status data) = length events"
proof -
  have l: "last_chars 40 (ts ! 2) = addr"
    using assms(6,7) by (simp add: last_chars_def)
  have z: "ts ! 2 = zero_topic \<longleftrightarrow> addr = replicate 40 (CHR ''0'')"
  proof -
    have "replicate 64 (CHR ''0'') = replicate 24 (CHR ''0'') @ replicate 40 (CHR ''0'')"
      by (simp add: replicate_add[symmetric])
    then show ?thesis
      unfolding assms(6) zero_topic_def by simp
  qed
  have c: "check_ownership_status data =
     (if ts ! 2 = zero_topic
      then \<lparr>renounced = True, current_owner = ''0x0000000000000000000000000000000000000000'',
            transfer_events = length events\<rparr>
      else \<lparr>renounced = False, current_owner = ''0x'' @ last_chars 40 (ts ! 2),
            transfer_events = length events\<rparr>)"
    using assms(1-5) by (simp add: check_ownership_status_def Let_def)
  show ?thesis
    using l z by (auto simp: c status_of_def)
qed

section \<open>Properties of the source normalizer\<close>

lemma gen_contents_objects:
  "gen_contents (map JObject recs) =
     Inr (map (\<lambda>r. case map_of r ''content'' of None \<Rightarrow> JString [] | Some v \<Rightarrow> v) recs)"
  by (induction recs) simp_all

lemma str_items_strings: "str_items (map JString cs) = Inr cs"
  by (induction cs) simp_all

lemma str_items_replicate: "str_items (replicate n (JString s)) = Inr (replicate n s)"
  by (induction n) simp_all

lemma py_join_empties: "py_join [c] (replicate n []) = replicate (n - 1) c"
proof (induction n)
  case 0
  show ?case by simp
next
  case (Suc n)
  then show ?case by (cases n) simp_all
qed

lemma join_sources_contents:
  assumes "map_of kvs ''sources'' = Some (JObject files)"
    and "map snd files = map JObject recs"
    and "map (\<lambda>r. map_of r ''content'') recs = map (\<lambda>c. Some (JString c)) cs"
  shows "join_sources (JObject kvs) = Inr (py_join [CHR 0x0A] cs)"
proof -
  have "map (\<lambda>r. case map_of r ''content'' of None \<Rightarrow> JString [] | Some v \<Rightarrow> v) recs
        = map (\<lambda>x. case x of None \<Rightarrow> JString [] | Some v \<Rightarrow> v) (map (\<lambda>r. map_of r ''content'') recs)"
    by (simp add: comp_def)
  also have "\<dots> = map JString cs"
    unfolding assms(3) by (simp add: comp_def)
  finally show ?thesis
    using assms(1,2) by (simp add: join_sources_def gen_contents_objects str_items_strings)
qed

lemma join_sources_no_sources:
  "map_of kvs ''sources'' = None \<Longrightarrow> join_sources (JObject kvs) = Inr []"
  by (simp add: join_sources_def)

lemma join_sources_no_content:
  assumes "map_of kvs ''sources'' = Some (JObject files)"
    and "map snd files = map JObject recs"
    and "\<forall>r \<in> set recs. map_of r ''content'' = None"
  shows "join_sources (JObject kvs) = Inr (replicate (length files - 1) (CHR 0x0A))"
proof -
  have "map (\<lambda>r. case map_of r ''content'' of None \<Rightarrow> JString [] | Some v \<Rightarrow> v) recs
        = map JString (replicate (length recs) [])"
    using assms(3) by (induction recs) simp_all
  moreover have "length recs = length files"
    using assms(2) by (metis length_map)
  ultimately show ?thesis
    using assms(1,2)
    by (simp add: join_sources_def gen_contents_objects str_items_replicate py_join_empties)
qed

lemma py_join_spec: "py_join [CHR 0x0A] cs = spec_joined cs"
proof (induction "[CHR 0x0A]" cs rule: py_join.induct)
  case 1
  show ?case by (simp add: spec_joined_def)
next
  case (2 x)
  show ?case by (simp add: spec_joined_def)
next
  case (3 x y ys)
  then show ?case by (simp add: spec_joined_def)
qed

text \<open>
  Claim C5 at a failing input. The claim lets a wrapper with malformed JSON fall back
  to the original text and lets normalization never fail. Lines 168 and 177 catch
  \<^verbatim>\<open>JSONDecodeError\<close> alone. On the text \<^verbatim>\<open>{"a":\<close> followed by a thousand opening
  brackets, malformed JSON after the wrapper marker, \<^verbatim>\<open>json.loads\<close> raises
  \<^verbatim>\<open>RecursionError\<close>, which leaves \<^verbatim>\<open>fetch_contract_source\<close>: no text is returned.
  So does the \<^verbatim>\<open>AttributeError\<close> of \<^verbatim>\<open>sources.values()\<close> on the wrapper
  \<^verbatim>\<open>{"sources":null}\<close>.
\<close>

theorem normalizer_aborts:
  "normalize_source
     (\<lambda>s. if s = ''{\"a\":'' @ replicate 1000 (CHR ''['') then Inl RecursionError
          else Inl JSONDecodeError)
     (''{\"a\":'' @ replicate 1000 (CHR ''['')) = Inl RecursionError
   \<and> normalize_source
     (\<lambda>s. if s = ''{\"sources\":null}'' then Inr (JObject [(''sources'', JNull)])
          else Inl JSONDecodeError)
     ''{\"sources\":null}'' = Inl AttributeError"
  by (simp add: normalize_source_def join_sources_def)

text \<open>
  Where the code follows claim C5, for every parser \<open>json_loads\<close>. (1) For a text that
  \<^verbatim>\<open>json.loads\<close> reads as an object whose \<^verbatim>\<open>sources\<close> maps file names to records with
  a string \<^verbatim>\<open>content\<close>, alone or inside one more pair of braces, the normalizer returns
  the contents in the order of the map, a newline after each but the last. (A JSON
  object never starts with two braces, which the first part writes as a hypothesis on
  the text.) (2) A text that does not start with a brace is returned as it is. (3) When
  the text starts with a brace and \<^verbatim>\<open>json.loads\<close> raises \<^verbatim>\<open>JSONDecodeError\<close>, the
  text is returned as it is.
\<close>

lemma normalizer_paths:
  "(take 1 src = ''{'' \<and> take 2 src \<noteq> ''{{'' \<and> json_loads src = Inr (JObject kvs)
      \<and> map_of kvs ''sources'' = Some (JObject files) \<and> map snd files = map JObject recs
      \<and> map (\<lambda>r. map_of r ''content'') recs = map (\<lambda>c. Some (JString c)) cs \<longrightarrow>
     normalize_source json_loads src = Inr (spec_joined cs \<noteq> [], spec_joined cs))
   \<and> (take 1 inner = ''{'' \<and> json_loads inner = Inr (JObject kvs)
      \<and> map_of kvs ''sources'' = Some (JObject files) \<and> map snd files = map JObject recs
      \<and> map (\<lambda>r. map_of r ''content'') recs = map (\<lambda>c. Some (JString c)) cs \<longrightarrow>
     normalize_source json_loads (''{'' @ inner @ ''}'')
       = Inr (spec_joined cs \<noteq> [], spec_joined cs))
   \<and> (take 1 src \<noteq> ''{'' \<longrightarrow> normalize_source json_loads src = Inr (src \<noteq> [], src))
   \<and> normalize_source json_loads ''X'' = Inr (True, ''X'')
   \<and> (take 1 src = ''{''
      \<and> json_loads (if take 2 src = ''{{'' then butlast (tl src) else src) = Inl JSONDecodeError \<longrightarrow>
     normalize_source json_loads src = Inr (True, src))"
proof (intro conjI impI)
  assume h: "take 1 src = ''{'' \<and> take 2 src \<noteq> ''{{'' \<and> json_loads src = Inr (JObject kvs)
      \<and> map_of kvs ''sources'' = Some (JObject files) \<and> map snd files = map JObject recs
      \<and> map (\<lambda>r. map_of r ''content'') recs = map (\<lambda>c. Some (JString c)) cs"
  then have "join_sources (JObject kvs) = Inr (spec_joined cs)"
    unfolding py_join_spec[symmetric] by (intro join_sources_contents) auto
  with h show "normalize_source json_loads src = Inr (spec_joined cs \<noteq> [], spec_joined cs)"
    by (simp add: normalize_source_def)
next
  assume h: "take 1 inner = ''{'' \<and> json_loads inner = Inr (JObject kvs)
      \<and> map_of kvs ''sources'' = Some (JObject files) \<and> map snd files = map JObject recs
      \<and> map (\<lambda>r. map_of r ''content'') recs = map (\<lambda>c. Some (JString c)) cs"
  then have j: "join_sources (JObject kvs) = Inr (spec_joined cs)"
    unfolding py_join_spec[symmetric] by (intro join_sources_contents) auto
  from h obtain rest where inner: "inner = CHR ''{'' # rest"
    by (cases inner) auto
  have "butlast (tl (''{'' @ inner @ ''}'')) = inner"
    by (simp add: butlast_append)
  moreover have "take 2 (''{'' @ inner @ ''}'') = ''{{''"
    by (simp add: inner)
  ultimately show "normalize_source json_loads (''{'' @ inner @ ''}'')
       = Inr (spec_joined cs \<noteq> [], spec_joined cs)"
    using h j unfolding normalize_source_def Let_def by (simp del: append.simps)
next
  assume "take 1 src \<noteq> ''{''"
  then show "normalize_source json_loads src = Inr (src \<noteq> [], src)"
    by (cases src) (auto simp: normalize_source_def)
next
  show "normalize_source json_loads ''X'' = Inr (True, ''X'')"
    by (simp add: normalize_source_def)
next
  assume h: "take 1 src = ''{''
      \<and> json_loads (if take 2 src = ''{{'' then butlast (tl src) else src) = Inl JSONDecodeError"
  then have "src \<noteq> []" by auto
  with h show "normalize_source json_loads src = Inr (True, src)"
    by (auto simp: normalize_source_def)
qed

text \<open>
  The wrapper of one file gives its content; three files give the three contents with
  two newlines between them, in the order of the map; so does the two-brace form.
\<close>

lemma normalizer_examples:
  "normalize_source
     (\<lambda>s. if s = ''{\"sources\":{\"A.sol\":{\"content\":\"X\"}}}''
          then Inr (JObject [(''sources'', JObject [(''A.sol'', JObject [(''content'', JString ''X'')])])])
          else Inl JSONDecodeError)
     ''{\"sources\":{\"A.sol\":{\"content\":\"X\"}}}'' = Inr (True, ''X'')
   \<and> normalize_source
     (\<lambda>s. if s = ''{\"sources\":{\"B.sol\":{\"content\":\"X\"},\"A.sol\":{\"content\":\"Y\"},\"C.sol\":{\"content\":\"Z\"}}}''
          then Inr (JObject [(''sources'',
                  JObject [(''B.sol'', JObject [(''content'', JString ''X'')]),
                           (''A.sol'', JObject [(''content'', JString ''Y'')]),
                           (''C.sol'', JObject [(''content'', JString ''Z'')])])])
          else Inl JSONDecodeError)
     ''{\"sources\":{\"B.sol\":{\"content\":\"X\"},\"A.sol\":{\"content\":\"Y\"},\"C.sol\":{\"content\":\"Z\"}}}''
     = Inr (True, [CHR ''X'', CHR 0x0A, CHR ''Y'', CHR 0x0A, CHR ''Z''])
   \<and> normalize_source
     (\<lambda>s. if s = ''{\"sources\":{\"B.sol\":{\"content\":\"X\"},\"A.sol\":{\"content\":\"Y\"}}}''
          then Inr (JObject [(''sources'',
                  JObject [(''B.sol'', JObject [(''content'', JString ''X'')]),
                           (''A.sol'', JObject [(''content'', JString ''Y'')])])])
          else Inl JSONDecodeError)
     ''{{\"sources\":{\"B.sol\":{\"content\":\"X\"},\"A.sol\":{\"content\":\"Y\"}}}}''
     = Inr (True, [CHR ''X'', CHR 0x0A, CHR ''Y''])
   \<and> normalize_source
     (\<lambda>s. if s = ''{\"sources\":{\"A.sol\":{\"content\":\"X\"}}}''
          then Inr (JObject [(''sources'', JObject [(''A.sol'', JObject [(''content'', JString ''X'')])])])
          else Inl JSONDecodeError)
     ''{\"sources\":'' = Inr (True, ''{\"sources\":'')"
  by (simp add: normalize_source_def join_sources_def)

text \<open>
  Claim C10 as stated gives the empty text whenever all entries of \<^verbatim>\<open>sources\<close> lack
  \<^verbatim>\<open>content\<close>. Two such entries are joined to one newline, which is not empty, and the
  contract counts as verified.
\<close>

theorem empty_on_missing_content_counterexample:
  "normalize_source
     (\<lambda>s. if s = ''{\"sources\":{\"A.sol\":{},\"B.sol\":{}}}''
          then Inr (JObject [(''sources'', JObject [(''A.sol'', JObject []), (''B.sol'', JObject [])])])
          else Inl JSONDecodeError)
     ''{\"sources\":{\"A.sol\":{},\"B.sol\":{}}}'' = Inr (True, [CHR 0x0A])
   \<and> [CHR 0x0A] \<noteq> []"
  by (simp add: normalize_source_def join_sources_def)

text \<open>
  Claim C10, amended. When the text starts with a brace and parses (after the outer
  braces are cut off in the two-brace form) to an object: without the key \<^verbatim>\<open>sources\<close>
  the normalized text is empty and the contract unverified, the original text being
  discarded; with a \<^verbatim>\<open>sources\<close> map of \<open>n\<close> records that all lack \<^verbatim>\<open>content\<close> the
  normalized text is \<open>n - 1\<close> newlines, so it is empty and the contract unverified for
  \<open>n\<close> up to 1, and not empty and the contract verified from \<open>n = 2\<close> on.
\<close>

theorem normalizer_discards_wrapper:
  "(take 1 src = ''{''
      \<and> json_loads (if take 2 src = ''{{'' then butlast (tl src) else src) = Inr (JObject kvs)
      \<and> map_of kvs ''sources'' = None \<longrightarrow>
     normalize_source json_loads src = Inr (False, []))
   \<and> (take 1 src = ''{''
      \<and> json_loads (if take 2 src = ''{{'' then butlast (tl src) else src) = Inr (JObject kvs)
      \<and> map_of kvs ''sources'' = Some (JObject files) \<and> map snd files = map JObject recs
      \<and> (\<forall>r \<in> set recs. map_of r ''content'' = None) \<longrightarrow>
     normalize_source json_loads src
       = Inr (2 \<le> length files, replicate (length files - 1) (CHR 0x0A)))"
proof (intro conjI impI)
  assume h: "take 1 src = ''{''
      \<and> json_loads (if take 2 src = ''{{'' then butlast (tl src) else src) = Inr (JObject kvs)
      \<and> map_of kvs ''sources'' = None"
  then have "join_sources (JObject kvs) = Inr []"
    by (simp add: join_sources_no_sources)
  with h show "normalize_source json_loads src = Inr (False, [])"
    by (auto simp: normalize_source_def)
next
  assume h: "take 1 src = ''{''
      \<and> json_loads (if take 2 src = ''{{'' then butlast (tl src) else src) = Inr (JObject kvs)
      \<and> map_of kvs ''sources'' = Some (JObject files) \<and> map snd files = map JObject recs
      \<and> (\<forall>r \<in> set recs. map_of r ''content'' = None)"
  then have "join_sources (JObject kvs) = Inr (replicate (length files - 1) (CHR 0x0A))"
    by (intro join_sources_no_content) auto
  moreover have "(replicate (length files - 1) (CHR 0x0A) \<noteq> []) = (2 \<le> length files)"
    by auto
  ultimately show "normalize_source json_loads src
       = Inr (2 \<le> length files, replicate (length files - 1) (CHR 0x0A))"
    using h by (auto simp: normalize_source_def)
qed

text \<open>
  An object without \<^verbatim>\<open>sources\<close>, one content-less entry in the two-brace form, and
  three content-less entries.
\<close>

theorem normalizer_discards_wrapper_witness:
  "normalize_source
     (\<lambda>s. if s = ''{\"A.sol\":{\"content\":\"X\"}}''
          then Inr (JObject [(''A.sol'', JObject [(''content'', JString ''X'')])])
          else Inl JSONDecodeError)
     ''{\"A.sol\":{\"content\":\"X\"}}'' = Inr (False, [])
   \<and> normalize_source
     (\<lambda>s. if s = ''{\"sources\":{\"A.sol\":{}}}''
          then Inr (JObject [(''sources'', JObject [(''A.sol'', JObject [])])])
          else Inl JSONDecodeError)
     ''{{\"sources\":{\"A.sol\":{}}}}'' = Inr (False, [])
   \<and> normalize_source
     (\<lambda>s. if s = ''{\"sources\":{\"A.sol\":{},\"B.sol\":{},\"C.sol\":{}}}''
          then Inr (JObject [(''sources'',
                  JObject [(''A.sol'', JObject []), (''B.sol'', JObject []), (''C.sol'', JObject [])])])
          else Inl JSONDecodeError)
     ''{\"sources\":{\"A.sol\":{},\"B.sol\":{},\"C.sol\":{}}}'' = Inr (True, [CHR 0x0A, CHR 0x0A])"
  using normalizer_discards_wrapper [of
      "''{\"A.sol\":{\"content\":\"X\"}}''"
      "(\<lambda>s. if s = ''{\"A.sol\":{\"content\":\"X\"}}''
          then Inr (JObject [(''A.sol'', JObject [(''content'', JString ''X'')])])
          else Inl JSONDecodeError)"
      "[(''A.sol'', JObject [(''content'', JString ''X'')])]"]
    normalizer_discards_wrapper [of
      "''{{\"sources\":{\"A.sol\":{}}}}''"
      "(\<lambda>s. if s = ''{\"sources\":{\"A.sol\":{}}}''
          then Inr (JObject [(''sources'', JObject [(''A.sol'', JObject [])])])
          else Inl JSONDecodeError)"
      "[(''sources'', JObject [(''A.sol'', JObject [])])]"
      "[(''A.sol'', JObject [])]" "[[]]"]
    normalizer_discards_wrapper [of
      "''{\"sources\":{\"A.sol\":{},\"B.sol\":{},\"C.sol\":{}}}''"
      "(\<lambda>s. if s = ''{\"sources\":{\"A.sol\":{},\"B.sol\":{},\"C.sol\":{}}}''
          then Inr (JObject [(''sources'',
                  JObject [(''A.sol'', JObject []), (''B.sol'', JObject []), (''C.sol'', JObject [])])])
          else Inl JSONDecodeError)"
      "[(''sources'',
                  JObject [(''A.sol'', JObject []), (''B.sol'', JObject []), (''C.sol'', JObject [])])]"
      "[(''A.sol'', JObject []), (''B.sol'', JObject []), (''C.sol'', JObject [])]" "[[], [], []]"]
  by (simp add: numeral_eq_Suc)

section \<open>Properties of the matcher and the scanner\<close>

text \<open>
  The matcher against the declarative reading: the rests \<open>rmatch\<close> returns are exactly
  the ones left by a prefix the pattern matches.
\<close>

lemma takeWhile_prefix_all:
  "list_all P p \<Longrightarrow> length p \<le> length (takeWhile P (p @ s'))"
  by (induction p) auto

lemma rmatch_lang:
  "(\<exists>c'. (s', c') \<in> set (rmatch U r s c)) \<longleftrightarrow> (\<exists>p. s = p @ s' \<and> p \<in> lang U r)"
proof (induction r arbitrary: s c s')
  case (Lit l)
  show ?case
  proof
    assume "\<exists>c'. (s', c') \<in> set (rmatch U (Lit l) s c)"
    then have a: "length l \<le> length s" "list_all2 (same_ignorecase U) l (take (length l) s)"
        "s' = drop (length l) s"
      by (auto split: if_splits)
    then have "s = take (length l) s @ s'" by simp
    with a(2) show "\<exists>p. s = p @ s' \<and> p \<in> lang U (Lit l)"
      by (intro exI[of _ "take (length l) s"]) simp
  next
    assume "\<exists>p. s = p @ s' \<and> p \<in> lang U (Lit l)"
    then obtain p where p: "s = p @ s'" "list_all2 (same_ignorecase U) l p" by auto
    then have "length p = length l" by (simp add: list_all2_lengthD)
    with p show "\<exists>c'. (s', c') \<in> set (rmatch U (Lit l) s c)" by auto
  qed
next
  case (Cls k)
  show ?case by (cases s) auto
next
  case (Rep k n)
  show ?case
  proof
    assume "\<exists>c'. (s', c') \<in> set (rmatch U (Rep k n) s c)"
    then obtain j where j: "n \<le> j" "j \<le> length (takeWhile (in_cset U k) s)" "s' = drop j s"
      by auto
    have "take j s = take j (takeWhile (in_cset U k) s)"
      using j(2) by (metis append_take_drop_id takeWhile_dropWhile_id take_append diff_is_0_eq take_0 append_Nil2)
    then have "set (take j s) \<subseteq> set (takeWhile (in_cset U k) s)"
      by (metis set_take_subset)
    then have "list_all (in_cset U k) (take j s)"
      by (auto simp: list_all_iff dest: set_takeWhileD)
    moreover have "length (take j s) = j"
      using j(2) length_takeWhile_le[of "in_cset U k" s] by simp
    ultimately show "\<exists>p. s = p @ s' \<and> p \<in> lang U (Rep k n)"
      using j by (intro exI[of _ "take j s"]) auto
  next
    assume "\<exists>p. s = p @ s' \<and> p \<in> lang U (Rep k n)"
    then obtain p where p: "s = p @ s'" "n \<le> length p" "list_all (in_cset U k) p" by auto
    then have "length p \<le> length (takeWhile (in_cset U k) s)"
      by (simp add: takeWhile_prefix_all)
    with p have "length p \<in> set (rev [n ..< Suc (length (takeWhile (in_cset U k) s))])" by auto
    then have "(\<lambda>j. (drop j s, c)) (length p)
        \<in> (\<lambda>j. (drop j s, c)) ` set (rev [n ..< Suc (length (takeWhile (in_cset U k) s))])"
      by (rule imageI)
    moreover have "drop (length p) s = s'" using p by simp
    ultimately have "(s', c) \<in> set (rmatch U (Rep k n) s c)"
      by (simp only: rmatch.simps set_map)
    then show "\<exists>c'. (s', c') \<in> set (rmatch U (Rep k n) s c)" ..
  qed
next
  case (Seq a b)
  show ?case
  proof
    assume "\<exists>c'. (s', c') \<in> set (rmatch U (Seq a b) s c)"
    then obtain c' s1 c1 where 1: "(s1, c1) \<in> set (rmatch U a s c)" and 2: "(s', c') \<in> set (rmatch U b s1 c1)"
      by auto
    from 1 Seq.IH(1) obtain u where u: "s = u @ s1" "u \<in> lang U a" by blast
    from 2 Seq.IH(2) obtain v where v: "s1 = v @ s'" "v \<in> lang U b" by blast
    from u v show "\<exists>p. s = p @ s' \<and> p \<in> lang U (Seq a b)"
      by (intro exI[of _ "u @ v"]) auto
  next
    assume "\<exists>p. s = p @ s' \<and> p \<in> lang U (Seq a b)"
    then obtain u v where uv: "s = (u @ v) @ s'" "u \<in> lang U a" "v \<in> lang U b" by auto
    then have "\<exists>p. s = p @ (v @ s') \<and> p \<in> lang U a" by auto
    with Seq.IH(1) obtain c1 where 1: "(v @ s', c1) \<in> set (rmatch U a s c)" by blast
    from uv have "\<exists>p. v @ s' = p @ s' \<and> p \<in> lang U b" by auto
    with Seq.IH(2) obtain c' where "(s', c') \<in> set (rmatch U b (v @ s') c1)" by blast
    with 1 show "\<exists>c'. (s', c') \<in> set (rmatch U (Seq a b) s c)" by force
  qed
next
  case (Alt a b)
  have "(\<exists>c'. (s', c') \<in> set (rmatch U (Alt a b) s c))
      \<longleftrightarrow> (\<exists>c'. (s', c') \<in> set (rmatch U a s c)) \<or> (\<exists>c'. (s', c') \<in> set (rmatch U b s c))"
    by auto
  then show ?case unfolding Alt.IH by auto
next
  case (Grp g r)
  have "(\<exists>c'. (s', c') \<in> set (rmatch U (Grp g r) s c)) \<longleftrightarrow> (\<exists>c'. (s', c') \<in> set (rmatch U r s c))"
    by force
  then show ?case unfolding Grp.IH by simp
next
  case (Opt r)
  have "(\<exists>c'. (s', c') \<in> set (rmatch U (Opt r) s c))
      \<longleftrightarrow> (\<exists>c'. (s', c') \<in> set (rmatch U r s c)) \<or> s' = s"
    by auto
  then show ?case unfolding Opt.IH by auto
qed


lemma rmatch_suffix:
  "(s', c') \<in> set (rmatch U r s c) \<Longrightarrow> \<exists>p. s = p @ s' \<and> p \<in> lang U r"
  using rmatch_lang by blast

lemma candidates_head:
  assumes "candidates U r n adv s = (s', c) # rest"
  shows "\<exists>p. s = p @ s' \<and> p \<in> lang U r \<and> take (length s - length s') s = p"
proof -
  have "(s', c) \<in> set (candidates U r n adv s)" using assms by simp
  then have "(s', c) \<in> set (rmatch U r s (replicate n None))"
    by (simp add: candidates_def)
  then obtain p where "s = p @ s'" "p \<in> lang U r" using rmatch_suffix by blast
  then show ?thesis by auto
qed

text \<open>Every match the scan reports is a text the pattern matches.\<close>

lemma finditer_from_lang:
  "(m, c) \<in> set (finditer_from U r n adv s) \<Longrightarrow> m \<in> lang U r"
proof (induction U r n adv s rule: finditer_from.induct)
  case (1 U r n must_advance s)
  show ?case
  proof (cases "candidates U r n must_advance s")
    case Nil
    show ?thesis
    proof (cases s)
      case Nil' : Nil
      with Nil "1.prems" show ?thesis by (simp add: finditer_from_end)
    next
      case (Cons x xs)
      with Nil "1.prems" have "(m, c) \<in> set (finditer_from U r n False xs)"
        by (simp add: finditer_from_skip)
      with "1.IH"(1)[OF Nil Cons] show ?thesis .
    qed
  next
    case (Cons a rest)
    obtain s' c' where a: "a = (s', c')" by (cases a)
    from candidates_head Cons a obtain p where p: "p \<in> lang U r" "take (length s - length s') s = p"
      by blast
    from Cons a "1.prems" have "(m, c) = (take (length s - length s') s, c')
        \<or> (m, c) \<in> set (finditer_from U r n (length s' = length s) s')"
      by (simp add: finditer_from_match)
    then show ?thesis
    proof
      assume "(m, c) = (take (length s - length s') s, c')"
      with p show ?thesis by simp
    next
      assume "(m, c) \<in> set (finditer_from U r n (length s' = length s) s')"
      with "1.IH"(2)[OF Cons a[symmetric]] show ?thesis by simp
    qed
  qed
qed

text \<open>The matches of the scan lie in the text one after the other, none overlapping.\<close>

lemma finditer_from_weave:
  "\<exists>gs. length gs = Suc (length (finditer_from U r n adv s))
       \<and> weave gs (map fst (finditer_from U r n adv s)) = s"
proof (induction U r n adv s rule: finditer_from.induct)
  case (1 U r n must_advance s)
  show ?case
  proof (cases "candidates U r n must_advance s")
    case Nil
    show ?thesis
    proof (cases s)
      case Nil' : Nil
      with Nil have "finditer_from U r n must_advance s = []" by (simp add: finditer_from_end)
      with Nil' show ?thesis by (intro exI[of _ "[[]]"]) simp
    next
      case (Cons x xs)
      with Nil have e: "finditer_from U r n must_advance s = finditer_from U r n False xs"
        by (simp add: finditer_from_skip)
      from "1.IH"(1)[OF Nil Cons] obtain gs where
        gs: "length gs = Suc (length (finditer_from U r n False xs))"
            "weave gs (map fst (finditer_from U r n False xs)) = xs" by blast
      then obtain g gs' where g: "gs = g # gs'" by (cases gs) auto
      have "weave ((x # g) # gs') ms = x # weave (g # gs') ms" for ms
        by (cases ms) auto
      with gs g Cons e show ?thesis
        by (intro exI[of _ "(x # g) # gs'"]) simp
    qed
  next
    case (Cons a rest)
    obtain s' c' where a: "a = (s', c')" by (cases a)
    from candidates_head Cons a obtain p where p: "s = p @ s'" "take (length s - length s') s = p"
      by blast
    from Cons a have e: "finditer_from U r n must_advance s
        = (p, c') # finditer_from U r n (length s' = length s) s'"
      using p(2) by (simp add: finditer_from_match)
    from "1.IH"(2)[OF Cons a[symmetric]] obtain gs where
      gs: "length gs = Suc (length (finditer_from U r n (length s' = length s) s'))"
          "weave gs (map fst (finditer_from U r n (length s' = length s) s')) = s'" by blast
    with e p(1) show ?thesis
      by (intro exI[of _ "[] # gs"]) simp
  qed
qed

text \<open>The scan finds a match whenever some part of the text matches the pattern.\<close>

lemma finditer_from_complete:
  "w \<in> lang U r \<Longrightarrow> finditer_from U r n False (u @ w @ v) \<noteq> []"
proof (induction u)
  case Nil
  then have "\<exists>c'. (v, c') \<in> set (rmatch U r (w @ v) (replicate n None))"
    using rmatch_lang by blast
  then have "candidates U r n False (w @ v) \<noteq> []"
    by (auto simp: candidates_def)
  then obtain s' c rest where "candidates U r n False (w @ v) = (s', c) # rest"
    by (cases "candidates U r n False (w @ v)") auto
  then show ?case by (simp add: finditer_from_match)
next
  case (Cons x u)
  show ?case
  proof (cases "candidates U r n False ((x # u) @ w @ v)")
    case Nil
    with Cons show ?thesis by (simp add: finditer_from_skip)
  next
    case (Cons a rest)
    then show ?thesis by (cases a) (simp add: finditer_from_match)
  qed
qed

lemma finditer_from_nonempty_iff:
  "finditer_from U r n False s \<noteq> [] \<longleftrightarrow> (\<exists>u w v. s = u @ w @ v \<and> w \<in> lang U r)"
proof
  assume ne: "finditer_from U r n False s \<noteq> []"
  then obtain m c ms where ms: "finditer_from U r n False s = (m, c) # ms"
    by (cases "finditer_from U r n False s") auto
  then have "m \<in> lang U r" using finditer_from_lang[of m c U r n False s] by simp
  moreover obtain gs where gs: "length gs = Suc (length (finditer_from U r n False s))"
       "weave gs (map fst (finditer_from U r n False s)) = s"
    using finditer_from_weave by blast
  then obtain g gs' where "gs = g # gs'" by (cases gs) auto
  with gs ms have "s = g @ m @ weave gs' (map fst ms)" by simp
  ultimately show "\<exists>u w v. s = u @ w @ v \<and> w \<in> lang U r" by blast
next
  assume "\<exists>u w v. s = u @ w @ v \<and> w \<in> lang U r"
  then show "finditer_from U r n False s \<noteq> []"
    using finditer_from_complete by blast
qed

text \<open>No pattern of the catalog matches the empty text.\<close>

lemma nullable_lang: "nullable r \<longleftrightarrow> [] \<in> lang U r"
  by (induction r) auto

lemma catalog_not_nullable:
  "(severity, rules) \<in> set DANGEROUS_PATTERNS \<Longrightarrow> r \<in> set rules \<Longrightarrow> \<not> nullable (rule_pattern r)"
  by (auto simp: DANGEROUS_PATTERNS_def)

text \<open>
  For a pattern that does not match the empty text, no match starts inside a gap of the
  scan.
\<close>

lemma no_candidates_no_match:
  assumes "[] \<notin> lang U r" and "candidates U r n adv s = []"
  shows "\<not> starts_match U r s"
proof
  assume "starts_match U r s"
  then obtain w v where wv: "s = w @ v" "w \<in> lang U r" by (auto simp: starts_match_def)
  then obtain c' where c': "(v, c') \<in> set (rmatch U r s (replicate n None))"
    using rmatch_lang by blast
  from wv assms(1) have "w \<noteq> []" by auto
  with wv have "length v < length s" by simp
  with c' have "(v, c') \<in> set (candidates U r n adv s)"
    by (simp add: candidates_def)
  with assms(2) show False by simp
qed

lemma gaps_clear_skip:
  assumes "\<not> starts_match U r (x # weave (g # gs) ms)" and "gaps_clear U r (g # gs) ms"
  shows "gaps_clear U r ((x # g) # gs) ms"
proof (cases ms)
  case Nil
  with assms show ?thesis by (auto simp: less_Suc_eq_0_disj)
next
  case (Cons m ms')
  with assms show ?thesis by (auto simp: less_Suc_eq_0_disj)
qed

lemma finditer_from_leftmost:
  "[] \<notin> lang U r \<Longrightarrow>
   \<exists>gs. length gs = Suc (length (finditer_from U r n adv s))
       \<and> weave gs (map fst (finditer_from U r n adv s)) = s
       \<and> gaps_clear U r gs (map fst (finditer_from U r n adv s))"
proof (induction U r n adv s rule: finditer_from.induct)
  case (1 U r n must_advance s)
  note nn = "1.prems"
  show ?case
  proof (cases "candidates U r n must_advance s")
    case Nil
    show ?thesis
    proof (cases s)
      case Nil' : Nil
      with Nil have "finditer_from U r n must_advance s = []" by (simp add: finditer_from_end)
      with Nil' show ?thesis by (intro exI[of _ "[[]]"]) simp
    next
      case (Cons x xs)
      with Nil have e: "finditer_from U r n must_advance s = finditer_from U r n False xs"
        by (simp add: finditer_from_skip)
      from "1.IH"(1)[OF Nil Cons nn] obtain gs where
        gs: "length gs = Suc (length (finditer_from U r n False xs))"
            "weave gs (map fst (finditer_from U r n False xs)) = xs"
            "gaps_clear U r gs (map fst (finditer_from U r n False xs))" by blast
      then obtain g gs' where g: "gs = g # gs'" by (cases gs) auto
      have w: "weave ((x # g) # gs') ms = x # weave (g # gs') ms" for ms
        by (cases ms) auto
      have "\<not> starts_match U r s" using nn Nil by (rule no_candidates_no_match)
      then have "\<not> starts_match U r (x # weave (g # gs') (map fst (finditer_from U r n False xs)))"
        using gs(2) g Cons by simp
      then have "gaps_clear U r ((x # g) # gs') (map fst (finditer_from U r n False xs))"
        using gs(3) g by (intro gaps_clear_skip) simp_all
      with gs g Cons e w show ?thesis
        by (intro exI[of _ "(x # g) # gs'"]) simp
    qed
  next
    case (Cons a rest)
    obtain s' c' where a: "a = (s', c')" by (cases a)
    from candidates_head Cons a obtain p where p: "s = p @ s'" "take (length s - length s') s = p"
      by blast
    from Cons a have e: "finditer_from U r n must_advance s
        = (p, c') # finditer_from U r n (length s' = length s) s'"
      using p(2) by (simp add: finditer_from_match)
    from "1.IH"(2)[OF Cons a[symmetric] nn] obtain gs where
      gs: "length gs = Suc (length (finditer_from U r n (length s' = length s) s'))"
          "weave gs (map fst (finditer_from U r n (length s' = length s) s')) = s'"
          "gaps_clear U r gs (map fst (finditer_from U r n (length s' = length s) s'))" by blast
    with e p(1) show ?thesis
      by (intro exI[of _ "[] # gs"]) simp
  qed
qed

text \<open>The loops in closed form; no \<^verbatim>\<open>KeyError\<close> arises, the four keys being set up.\<close>

lemma scan_rules_closed:
  "findings severity = Some fs \<Longrightarrow>
   scan_rules U source_code severity ps findings =
     Inr (findings(severity \<mapsto> fs @ map (finding_of U source_code) (matched_rules U source_code ps)))"
proof (induction ps arbitrary: findings fs)
  case Nil
  then show ?case by (simp add: matched_rules_def fun_upd_idem)
next
  case (Cons p ps)
  show ?case
  proof (cases "findall U (rule_pattern p) source_code = []")
    case True
    with Cons.IH[of findings fs, OF Cons.prems] show ?thesis by (simp add: matched_rules_def)
  next
    case False
    let ?f = "finding_of U source_code p"
    have step: "scan_rules U source_code severity (p # ps) findings
        = scan_rules U source_code severity ps (findings(severity \<mapsto> fs @ [?f]))"
      using False Cons.prems by (simp add: finding_of_def Let_def)
    have ih: "scan_rules U source_code severity ps (findings(severity \<mapsto> fs @ [?f]))
        = Inr ((findings(severity \<mapsto> fs @ [?f]))(severity \<mapsto>
                 (fs @ [?f]) @ map (finding_of U source_code) (matched_rules U source_code ps)))"
      by (rule Cons.IH) simp
    have m: "matched_rules U source_code (p # ps) = p # matched_rules U source_code ps"
      using False by (simp add: matched_rules_def)
    show ?thesis unfolding step ih m by (simp add: fun_eq_iff)
  qed
qed

lemma scan_items_closed:
  "distinct (map fst items) \<Longrightarrow> \<forall>k \<in> set (map fst items). findings k \<noteq> None \<Longrightarrow>
   \<exists>findings'. scan_items U source_code items findings = Inr findings'
     \<and> (\<forall>k. findings' k =
          (case map_of items k of
             None \<Rightarrow> findings k
           | Some ps \<Rightarrow> map_option (\<lambda>fs. fs @ map (finding_of U source_code) (matched_rules U source_code ps))
                          (findings k)))"
proof (induction items arbitrary: findings)
  case Nil
  then show ?case by simp
next
  case (Cons it items)
  obtain severity ps where it: "it = (severity, ps)" by (cases it)
  from Cons.prems it obtain fs where fs: "findings severity = Some fs" by auto
  let ?f1 = "findings(severity \<mapsto> fs @ map (finding_of U source_code) (matched_rules U source_code ps))"
  have 1: "scan_rules U source_code severity ps findings = Inr ?f1"
    using fs by (rule scan_rules_closed)
  have d: "distinct (map fst items)" and notin: "severity \<notin> set (map fst items)"
    using Cons.prems(1) it by auto
  have "\<forall>k \<in> set (map fst items). ?f1 k \<noteq> None"
    using Cons.prems(2) by auto
  from Cons.IH[OF d this] obtain findings' where
    f': "scan_items U source_code items ?f1 = Inr findings'"
        "\<And>k. findings' k = (case map_of items k of None \<Rightarrow> ?f1 k
           | Some ps \<Rightarrow> map_option (\<lambda>fs. fs @ map (finding_of U source_code) (matched_rules U source_code ps)) (?f1 k))"
    by blast
  have "map_of items severity = None"
    using notin by (simp add: map_of_eq_None_iff)
  with f' 1 it fs show ?case
    by (intro exI[of _ findings']) (auto split: option.splits)
qed

lemma catalog_keys: "map fst DANGEROUS_PATTERNS = [''critical'', ''high'', ''medium'', ''info'']"
  by (simp add: DANGEROUS_PATTERNS_def)

lemma catalog_names_distinct:
  "(severity, rules) \<in> set DANGEROUS_PATTERNS \<Longrightarrow> distinct (map rule_name rules)"
  by (auto simp: DANGEROUS_PATTERNS_def)

lemma scan_for_patterns_closed:
  assumes "(severity, rules) \<in> set DANGEROUS_PATTERNS"
  shows "\<exists>findings. scan_for_patterns U source_code = Inr findings
     \<and> findings severity = Some (map (finding_of U source_code) (matched_rules U source_code rules))"
proof -
  let ?init = "[''critical'' \<mapsto> [], ''high'' \<mapsto> [], ''medium'' \<mapsto> [], ''info'' \<mapsto> ([] :: finding list)]"
  have d: "distinct (map fst DANGEROUS_PATTERNS)" by (simp add: catalog_keys)
  have k: "\<forall>k \<in> set (map fst DANGEROUS_PATTERNS). ?init k \<noteq> None"
    by (simp add: catalog_keys)
  from scan_items_closed[OF d k] obtain findings' where
    f: "scan_items U source_code DANGEROUS_PATTERNS ?init = Inr findings'"
       "\<And>k. findings' k = (case map_of DANGEROUS_PATTERNS k of None \<Rightarrow> ?init k
           | Some ps \<Rightarrow> map_option (\<lambda>fs. fs @ map (finding_of U source_code) (matched_rules U source_code ps)) (?init k))"
    by blast
  have m: "map_of DANGEROUS_PATTERNS severity = Some rules"
    using assms d by (simp add: map_of_eq_Some_iff)
  have "severity \<in> set (map fst DANGEROUS_PATTERNS)"
    using assms by force
  then have "?init severity = Some []"
    unfolding catalog_keys by auto
  with f m show ?thesis
    by (intro exI[of _ findings']) (simp add: scan_for_patterns_def)
qed

lemma findall_length: "length (findall U r s) = length (finditer U r s)"
  by (simp add: findall_def)


lemma filter_name_le_one:
  "distinct (map h xs) \<Longrightarrow> length (filter (\<lambda>x. h x = a) xs) \<le> 1"
  by (induction xs) (auto simp: filter_empty_conv image_iff)

text \<open>
  Claim C4. For every source text (any sequence of code points), every rule of the
  catalog and whatever the Unicode tables of the matcher, the scanner returns
  findings in which the list of the rule's severity holds a finding named after the rule
  if and only if some part of the text matches the rule's pattern, ignoring case; there
  is at most one such finding, and its \<^verbatim>\<open>occurrences\<close> is the number of matches the
  left-to-right scan of \<^verbatim>\<open>re.findall\<close> reports, which is at least 1; every finding
  of the list belongs to a rule of that severity in this way. Those matches lie
  in the text one after the other without overlap, each is a text the pattern matches,
  and no match starts in a gap before, between or after them.
\<close>

theorem scanner_findings:
  assumes "(severity, rules) \<in> set DANGEROUS_PATTERNS" and "r \<in> set rules"
  shows "\<exists>findings fs. scan_for_patterns U source_code = Inr findings \<and> findings severity = Some fs
     \<and> ((\<exists>f \<in> set fs. name f = rule_name r)
          \<longleftrightarrow> (\<exists>u w v. source_code = u @ w @ v \<and> w \<in> lang U (rule_pattern r)))
     \<and> length (filter (\<lambda>f. name f = rule_name r) fs) \<le> 1
     \<and> (\<forall>f \<in> set fs. name f = rule_name r \<longrightarrow>
           occurrences f = length (finditer U (rule_pattern r) source_code) \<and> 1 \<le> occurrences f)
     \<and> (\<forall>f \<in> set fs. \<exists>r' \<in> set rules. name f = rule_name r'
           \<and> occurrences f = length (finditer U (rule_pattern r') source_code) \<and> 1 \<le> occurrences f)
     \<and> (\<exists>gs. length gs = Suc (length (finditer U (rule_pattern r) source_code))
           \<and> weave gs (map fst (finditer U (rule_pattern r) source_code)) = source_code
           \<and> gaps_clear U (rule_pattern r) gs (map fst (finditer U (rule_pattern r) source_code)))
     \<and> (\<forall>m \<in> set (map fst (finditer U (rule_pattern r) source_code)). m \<in> lang U (rule_pattern r))"
proof -
  from scan_for_patterns_closed[OF assms(1)] obtain findings where
    f: "scan_for_patterns U source_code = Inr findings"
       "findings severity = Some (map (finding_of U source_code) (matched_rules U source_code rules))"
    by blast
  let ?fs = "map (finding_of U source_code) (matched_rules U source_code rules)"
  have dn: "distinct (map rule_name rules)"
    using catalog_names_distinct[OF assms(1)] .
  then have inj: "inj_on rule_name (set rules)"
    by (simp add: distinct_map)
  have same: "r' = r" if "r' \<in> set rules" "rule_name r' = rule_name r" for r'
    using inj that assms(2) by (auto dest: inj_onD)
  have hit: "findall U (rule_pattern r) source_code \<noteq> [] \<longleftrightarrow> (\<exists>u w v. source_code = u @ w @ v \<and> w \<in> lang U (rule_pattern r))"
    unfolding findall_def finditer_def by (simp add: finditer_from_nonempty_iff)
  have a: "(\<exists>f \<in> set ?fs. name f = rule_name r) \<longleftrightarrow> findall U (rule_pattern r) source_code \<noteq> []"
  proof
    assume "\<exists>f \<in> set ?fs. name f = rule_name r"
    then obtain r' where "r' \<in> set rules" "findall U (rule_pattern r') source_code \<noteq> []"
        "rule_name r' = rule_name r"
      by (auto simp: matched_rules_def finding_of_def)
    with same show "findall U (rule_pattern r) source_code \<noteq> []" by blast
  next
    assume "findall U (rule_pattern r) source_code \<noteq> []"
    with assms(2) have "finding_of U source_code r \<in> set ?fs" by (simp add: matched_rules_def)
    moreover have "name (finding_of U source_code r) = rule_name r" by (simp add: finding_of_def)
    ultimately show "\<exists>f \<in> set ?fs. name f = rule_name r" by blast
  qed
  have b: "occurrences f = length (finditer U (rule_pattern r) source_code) \<and> 1 \<le> occurrences f"
    if "f \<in> set ?fs" "name f = rule_name r" for f
  proof -
    from that obtain r' where r': "r' \<in> set rules" "findall U (rule_pattern r') source_code \<noteq> []"
        "f = finding_of U source_code r'" "rule_name r' = rule_name r"
      by (auto simp: matched_rules_def finding_of_def)
    with same have "r' = r" by blast
    with r' show ?thesis
      by (cases "findall U (rule_pattern r) source_code") (auto simp: finding_of_def findall_length[symmetric])
  qed
  have g: "\<exists>r' \<in> set rules. name f = rule_name r'
           \<and> occurrences f = length (finditer U (rule_pattern r') source_code) \<and> 1 \<le> occurrences f"
    if "f \<in> set ?fs" for f
  proof -
    from that obtain r' where r': "r' \<in> set rules" "findall U (rule_pattern r') source_code \<noteq> []"
        "f = finding_of U source_code r'"
      by (auto simp: matched_rules_def)
    then have "name f = rule_name r'"
      and "occurrences f = length (finditer U (rule_pattern r') source_code)"
      and "1 \<le> occurrences f"
      by (cases "findall U (rule_pattern r') source_code"; simp add: finding_of_def findall_length[symmetric])+
    with r'(1) show ?thesis by blast
  qed
  have "map name ?fs = map rule_name (matched_rules U source_code rules)"
    by (simp add: finding_of_def comp_def)
  moreover have "distinct (map rule_name (matched_rules U source_code rules))"
    using dn unfolding matched_rules_def by (rule distinct_map_filter)
  ultimately have "distinct (map name ?fs)"
    by (simp only:)
  then have c: "length (filter (\<lambda>f. name f = rule_name r) ?fs) \<le> 1"
    by (rule filter_name_le_one)
  have nn: "[] \<notin> lang U (rule_pattern r)"
    using catalog_not_nullable[OF assms] nullable_lang by blast
  have d: "\<exists>gs. length gs = Suc (length (finditer U (rule_pattern r) source_code))
           \<and> weave gs (map fst (finditer U (rule_pattern r) source_code)) = source_code
           \<and> gaps_clear U (rule_pattern r) gs (map fst (finditer U (rule_pattern r) source_code))"
    unfolding finditer_def using nn by (rule finditer_from_leftmost)
  have e: "\<forall>m \<in> set (map fst (finditer U (rule_pattern r) source_code)). m \<in> lang U (rule_pattern r)"
    unfolding finditer_def using finditer_from_lang by fastforce
  from f a b c d e g hit show ?thesis by blast
qed

text \<open>
  Claim C8 says the sample is the first matched substring. For a pattern without a
  capture group it is:
\<close>

lemma sample_without_groups:
  assumes "ngroups (rule_pattern p) = 0" and "findall U (rule_pattern p) text \<noteq> []"
  shows "sample (finding_of U text p) = PStr (fst (hd (finditer U (rule_pattern p) text)))"
  using assms
  by (cases "finditer U (rule_pattern p) text") (auto simp: finding_of_def findall_def)


text \<open>
  The rule Self-Destruct on a text with two matches, one of them in upper case: the
  finding is there and counts 2, whatever the tables. With tables in which the
  no-break space U+00A0 is whitespace, a text with that character between
  \<^verbatim>\<open>selfdestruct\<close> and the parenthesis has its match and its finding.
\<close>

theorem scanner_findings_witness:
  "(''critical'', snd (DANGEROUS_PATTERNS ! 0)) \<in> set DANGEROUS_PATTERNS
   \<and> snd (DANGEROUS_PATTERNS ! 0) ! 3 \<in> set (snd (DANGEROUS_PATTERNS ! 0))
   \<and> rule_name (snd (DANGEROUS_PATTERNS ! 0) ! 3) = ''Self-Destruct''
   \<and> (\<forall>U. map fst (finditer U (rule_pattern (snd (DANGEROUS_PATTERNS ! 0) ! 3))
                      (ustr ''selfdestruct(a); SUICIDE (b)''))
               = [ustr ''selfdestruct('', ustr ''SUICIDE (''])
   \<and> (\<forall>U. \<exists>findings fs. scan_for_patterns U (ustr ''selfdestruct(a); SUICIDE (b)'') = Inr findings
          \<and> findings ''critical'' = Some fs
          \<and> (\<exists>f \<in> set fs. name f = ''Self-Destruct'' \<and> occurrences f = 2))
   \<and> map fst (finditer
          \<lparr>uni_space = (\<lambda>c. c = 160), uni_word = (\<lambda>c. False), uni_digit = (\<lambda>c. False),
            uni_ignorecase = (\<lambda>p c. False)\<rparr>
          (rule_pattern (snd (DANGEROUS_PATTERNS ! 0) ! 3))
          (ustr ''selfdestruct'' @ [160] @ ustr ''(a)''))
        = [ustr ''selfdestruct'' @ [160] @ ustr ''('']
   \<and> (\<exists>findings fs. scan_for_patterns
          \<lparr>uni_space = (\<lambda>c. c = 160), uni_word = (\<lambda>c. False), uni_digit = (\<lambda>c. False),
            uni_ignorecase = (\<lambda>p c. False)\<rparr>
          (ustr ''selfdestruct'' @ [160] @ ustr ''(a)'') = Inr findings
          \<and> findings ''critical'' = Some fs
          \<and> (\<exists>f \<in> set fs. name f = ''Self-Destruct'' \<and> occurrences f = 1))"
proof -
  let ?rules = "snd (DANGEROUS_PATTERNS ! 0)"
  let ?r = "?rules ! 3"
  have m1: "(''critical'', ?rules) \<in> set DANGEROUS_PATTERNS"
    by (simp add: DANGEROUS_PATTERNS_def)
  have m2: "?r \<in> set ?rules"
    by (simp add: DANGEROUS_PATTERNS_def)
  have n: "rule_name ?r = ''Self-Destruct''"
    by (simp add: DANGEROUS_PATTERNS_def)
  have found: "\<exists>findings fs. scan_for_patterns U T = Inr findings
          \<and> findings ''critical'' = Some fs
          \<and> (\<exists>f \<in> set fs. name f = ''Self-Destruct'' \<and> occurrences f = k)"
    if len: "length (finditer U (rule_pattern ?r) T) = k" and k: "0 < k" for U T k
  proof -
    from len k have "finditer U (rule_pattern ?r) T \<noteq> []" by auto
    then have ex: "\<exists>u w v. T = u @ w @ v \<and> w \<in> lang U (rule_pattern ?r)"
      unfolding finditer_def by (simp only: finditer_from_nonempty_iff)
    from scanner_findings[OF m1 m2, where source_code = T and U = U] obtain findings fs where
      s: "scan_for_patterns U T = Inr findings" "findings ''critical'' = Some fs"
         "(\<exists>f \<in> set fs. name f = rule_name ?r)
            \<longleftrightarrow> (\<exists>u w v. T = u @ w @ v \<and> w \<in> lang U (rule_pattern ?r))"
         "\<forall>f \<in> set fs. name f = rule_name ?r \<longrightarrow>
             occurrences f = length (finditer U (rule_pattern ?r) T) \<and> 1 \<le> occurrences f"
      by blast
    from s(3) ex obtain f where f: "f \<in> set fs" "name f = rule_name ?r" by blast
    with s(4) len have "occurrences f = k" by simp
    with f n have "\<exists>f \<in> set fs. name f = ''Self-Destruct'' \<and> occurrences f = k" by auto
    with s(1,2) show ?thesis by blast
  qed
  have it: "map fst (finditer U (rule_pattern ?r) (ustr ''selfdestruct(a); SUICIDE (b)''))
      = [ustr ''selfdestruct('', ustr ''SUICIDE ('']" for U
    by code_simp
  have len: "length (finditer U (rule_pattern ?r) (ustr ''selfdestruct(a); SUICIDE (b)'')) = 2" for U
    using it[of U] by (metis length_map length_Cons list.size(3) numeral_2_eq_2)
  let ?U = "\<lparr>uni_space = (\<lambda>c. c = 160), uni_word = (\<lambda>c. False), uni_digit = (\<lambda>c. False),
            uni_ignorecase = (\<lambda>p c. False)\<rparr>"
  have it': "map fst (finditer ?U (rule_pattern ?r) (ustr ''selfdestruct'' @ [160] @ ustr ''(a)''))
        = [ustr ''selfdestruct'' @ [160] @ ustr ''('']"
    by code_simp
  have len': "length (finditer ?U (rule_pattern ?r) (ustr ''selfdestruct'' @ [160] @ ustr ''(a)'')) = 1"
    using it' by (metis length_map length_Cons list.size(3) One_nat_def)
  from found[OF len] have A: "\<forall>U. \<exists>findings fs.
          scan_for_patterns U (ustr ''selfdestruct(a); SUICIDE (b)'') = Inr findings
          \<and> findings ''critical'' = Some fs
          \<and> (\<exists>f \<in> set fs. name f = ''Self-Destruct'' \<and> occurrences f = 2)"
    by simp
  from found[OF len'] have B: "\<exists>findings fs. scan_for_patterns ?U
          (ustr ''selfdestruct'' @ [160] @ ustr ''(a)'') = Inr findings
          \<and> findings ''critical'' = Some fs
          \<and> (\<exists>f \<in> set fs. name f = ''Self-Destruct'' \<and> occurrences f = 1)"
    by simp
  from it have I: "\<forall>U. map fst (finditer U (rule_pattern ?r) (ustr ''selfdestruct(a); SUICIDE (b)''))
      = [ustr ''selfdestruct('', ustr ''SUICIDE ('']" by blast
  from m1 m2 n I A it' B show ?thesis by (intro conjI)
qed

text \<open>
  Claim C8 at a failing input, whatever the Unicode tables (the texts are ASCII). The
  pattern of Blacklist Function has a capture
  group, so \<^verbatim>\<open>re.findall\<close> returns the text of the group in place of the match. On
  \<^verbatim>\<open>function blacklist(address a)\<close> the first match is \<^verbatim>\<open>function blacklist\<close>; the
  group took no part in it, and the sample of the finding is the empty string. On
  \<^verbatim>\<open>function mint() public\<close> the sample of Hidden Mint is \<^verbatim>\<open>public\<close>, not the
  whole match. The pattern of High Tax/Fee has two groups: on \<^verbatim>\<open>fee = 10\<close> the sample
  is the tuple of \<^verbatim>\<open>fee\<close> and \<^verbatim>\<open>10\<close>.
\<close>

theorem sample_is_capture_group:
  "(\<exists>findings. scan_for_patterns U (ustr ''function blacklist(address a)'') = Inr findings
     \<and> findings ''critical'' =
         Some [\<lparr>name = ''Blacklist Function'',
                 description = ''Contract can blacklist addresses from trading'',
                 occurrences = 1, sample = PStr []\<rparr>]
     \<and> map fst (finditer U (rule_pattern (snd (DANGEROUS_PATTERNS ! 0) ! 2))
                   (ustr ''function blacklist(address a)'')) = [ustr ''function blacklist''])
   \<and> (\<exists>findings. scan_for_patterns U (ustr ''function mint() public'') = Inr findings
     \<and> findings ''critical'' =
         Some [\<lparr>name = ''Hidden Mint'', description = ''Owner can create unlimited tokens'',
                 occurrences = 1, sample = PStr (ustr ''public'')\<rparr>]
     \<and> map fst (finditer U (rule_pattern (snd (DANGEROUS_PATTERNS ! 0) ! 0))
                   (ustr ''function mint() public'')) = [ustr ''function mint() public''])
   \<and> (\<exists>findings. scan_for_patterns U (ustr ''fee = 10'') = Inr findings
     \<and> findings ''high'' =
         Some [\<lparr>name = ''High Tax/Fee'',
                 description = ''Adjustable fees could be set extremely high'',
                 occurrences = 1, sample = PTuple [ustr ''fee'', ustr ''10'']\<rparr>]
     \<and> map fst (finditer U (rule_pattern (snd (DANGEROUS_PATTERNS ! 1) ! 3)) (ustr ''fee = 10''))
           = [ustr ''fee = 10''])"
proof -
  have m0: "(''critical'', snd (DANGEROUS_PATTERNS ! 0)) \<in> set DANGEROUS_PATTERNS"
    by (simp add: DANGEROUS_PATTERNS_def)
  have m1: "(''high'', snd (DANGEROUS_PATTERNS ! 1)) \<in> set DANGEROUS_PATTERNS"
    by (simp add: DANGEROUS_PATTERNS_def)
  have a1: "map (finding_of U (ustr ''function blacklist(address a)''))
              (matched_rules U (ustr ''function blacklist(address a)'') (snd (DANGEROUS_PATTERNS ! 0)))
         = [\<lparr>name = ''Blacklist Function'',
                 description = ''Contract can blacklist addresses from trading'',
                 occurrences = 1, sample = PStr []\<rparr>]"
    by code_simp
  have a2: "map fst (finditer U (rule_pattern (snd (DANGEROUS_PATTERNS ! 0) ! 2))
                   (ustr ''function blacklist(address a)'')) = [ustr ''function blacklist'']"
    by code_simp
  have b1: "map (finding_of U (ustr ''function mint() public''))
              (matched_rules U (ustr ''function mint() public'') (snd (DANGEROUS_PATTERNS ! 0)))
         = [\<lparr>name = ''Hidden Mint'', description = ''Owner can create unlimited tokens'',
                 occurrences = 1, sample = PStr (ustr ''public'')\<rparr>]"
    by code_simp
  have b2: "map fst (finditer U (rule_pattern (snd (DANGEROUS_PATTERNS ! 0) ! 0))
                   (ustr ''function mint() public'')) = [ustr ''function mint() public'']"
    by code_simp
  have c1: "map (finding_of U (ustr ''fee = 10'')) (matched_rules U (ustr ''fee = 10'') (snd (DANGEROUS_PATTERNS ! 1)))
         = [\<lparr>name = ''High Tax/Fee'',
                 description = ''Adjustable fees could be set extremely high'',
                 occurrences = 1, sample = PTuple [ustr ''fee'', ustr ''10'']\<rparr>]"
    by code_simp
  have c2: "map fst (finditer U (rule_pattern (snd (DANGEROUS_PATTERNS ! 1) ! 3)) (ustr ''fee = 10''))
           = [ustr ''fee = 10'']"
    by code_simp
  from scan_for_patterns_closed[OF m0, where source_code = "(ustr ''function blacklist(address a)'')" and U = U] a1 a2
  have A: "\<exists>findings. scan_for_patterns U (ustr ''function blacklist(address a)'') = Inr findings
     \<and> findings ''critical'' =
         Some [\<lparr>name = ''Blacklist Function'',
                 description = ''Contract can blacklist addresses from trading'',
                 occurrences = 1, sample = PStr []\<rparr>]
     \<and> map fst (finditer U (rule_pattern (snd (DANGEROUS_PATTERNS ! 0) ! 2))
                   (ustr ''function blacklist(address a)'')) = [ustr ''function blacklist'']"
    by auto
  from scan_for_patterns_closed[OF m0, where source_code = "(ustr ''function mint() public'')" and U = U] b1 b2
  have B: "\<exists>findings. scan_for_patterns U (ustr ''function mint() public'') = Inr findings
     \<and> findings ''critical'' =
         Some [\<lparr>name = ''Hidden Mint'', description = ''Owner can create unlimited tokens'',
                 occurrences = 1, sample = PStr (ustr ''public'')\<rparr>]
     \<and> map fst (finditer U (rule_pattern (snd (DANGEROUS_PATTERNS ! 0) ! 0))
                   (ustr ''function mint() public'')) = [ustr ''function mint() public'']"
    by auto
  from scan_for_patterns_closed[OF m1, where source_code = "(ustr ''fee = 10'')" and U = U] c1 c2
  have C: "\<exists>findings. scan_for_patterns U (ustr ''fee = 10'') = Inr findings
     \<and> findings ''high'' =
         Some [\<lparr>name = ''High Tax/Fee'',
                 description = ''Adjustable fees could be set extremely high'',
                 occurrences = 1, sample = PTuple [ustr ''fee'', ustr ''10'']\<rparr>]
     \<and> map fst (finditer U (rule_pattern (snd (DANGEROUS_PATTERNS ! 1) ! 3)) (ustr ''fee = 10''))
           = [ustr ''fee = 10'']"
    by auto
  from A B C show ?thesis by (intro conjI)
qed

end
